theory Spec2Isabelle
  imports Complex_Main "HOL-Library.Word"
begin

unbundle bit_operations_syntax

section \<open>Effect factory (get_sequence_effect_impl, SEQ_effect_get_num_inputs)\<close>

text \<open>
  The case labels of the switch statements of effects.cc. The enumerators are declared in
  DNA_sequence_types.h, which is not part of the sources at hand; their integer values are
  therefore a parameter \<open>K\<close> of every function that switches on an effect type.
\<close>

datatype seq_label =
    SEQ_TYPE_CROSS | SEQ_TYPE_GAMCROSS | SEQ_TYPE_ADD | SEQ_TYPE_SUB | SEQ_TYPE_MUL
  | SEQ_TYPE_SCREEN | SEQ_TYPE_OVERLAY | SEQ_TYPE_COLOR_BURN | SEQ_TYPE_LINEAR_BURN
  | SEQ_TYPE_DARKEN | SEQ_TYPE_LIGHTEN | SEQ_TYPE_DODGE | SEQ_TYPE_SOFT_LIGHT
  | SEQ_TYPE_HARD_LIGHT | SEQ_TYPE_PIN_LIGHT | SEQ_TYPE_LIN_LIGHT | SEQ_TYPE_VIVID_LIGHT
  | SEQ_TYPE_BLEND_COLOR | SEQ_TYPE_HUE | SEQ_TYPE_SATURATION | SEQ_TYPE_VALUE
  | SEQ_TYPE_DIFFERENCE | SEQ_TYPE_EXCLUSION | SEQ_TYPE_COLORMIX | SEQ_TYPE_ALPHAOVER
  | SEQ_TYPE_OVERDROP | SEQ_TYPE_ALPHAUNDER | SEQ_TYPE_WIPE | SEQ_TYPE_GLOW
  | SEQ_TYPE_TRANSFORM | SEQ_TYPE_SPEED | SEQ_TYPE_COLOR | SEQ_TYPE_MULTICAM
  | SEQ_TYPE_ADJUSTMENT | SEQ_TYPE_GAUSSIAN_BLUR | SEQ_TYPE_TEXT

text \<open>A C++ switch jumps to the label whose constant equals the scrutinee, if there is one.\<close>

definition switch_on :: "(seq_label \<Rightarrow> int) \<Rightarrow> seq_label list \<Rightarrow> int \<Rightarrow> seq_label option" where
  "switch_on K labels v = find (\<lambda>l. K l = v) labels"

text \<open>Function pointers are modelled by the name of the function they point to; a null
  pointer is \<open>None\<close>.\<close>

datatype init_fn = fp_init_noop | fp_init_colormix_effect | fp_init_alpha_over_or_under
  | fp_init_wipe_effect | fp_init_glow_effect | fp_init_transform_effect | fp_init_speed_effect
  | fp_init_solid_color | fp_init_gaussian_blur_effect | fp_init_text_effect

datatype num_inputs_fn = fp_num_inputs_default | fp_num_inputs_wipe | fp_num_inputs_glow
  | fp_num_inputs_transform | fp_num_inputs_speed | fp_num_inputs_color | fp_num_inputs_multicam
  | fp_num_inputs_adjustment | fp_num_inputs_gaussian_blur | fp_num_inputs_text

datatype load_fn = fp_load_noop | fp_load_speed_effect | fp_load_text_effect

datatype free_fn = fp_free_noop | fp_free_effect_default | fp_free_wipe_effect | fp_free_glow_effect
  | fp_free_transform_effect | fp_free_speed_effect | fp_free_solid_color
  | fp_free_gaussian_blur_effect | fp_free_text_effect

datatype copy_fn = fp_copy_effect_default | fp_copy_wipe_effect | fp_copy_glow_effect
  | fp_copy_transform_effect | fp_copy_speed_effect | fp_copy_solid_color
  | fp_copy_gaussian_blur_effect | fp_copy_text_effect

datatype early_out_fn = fp_early_out_noop | fp_early_out_fade | fp_early_out_mul_input2
  | fp_early_out_mul_input1 | fp_early_out_speed | fp_early_out_color | fp_early_out_multicam
  | fp_early_out_adjustment | fp_early_out_gaussian_blur | fp_early_out_text

datatype default_fac_fn = fp_get_default_fac_noop | fp_get_default_fac_fade

datatype execute_fn = fp_do_wipe_effect | fp_do_glow_effect | fp_do_speed_effect | fp_do_solid_color
  | fp_do_multicam | fp_do_adjustment | fp_do_gaussian_blur_effect | fp_do_text_effect

datatype execute_slice_fn = fp_do_cross_effect | fp_do_gammacross_effect | fp_do_add_effect
  | fp_do_sub_effect | fp_do_mul_effect | fp_do_blend_mode_effect | fp_do_colormix_effect
  | fp_do_alphaover_effect | fp_do_overdrop_effect | fp_do_alphaunder_effect | fp_do_transform_effect

datatype init_execution_fn = fp_init_execution

record SeqEffectHandle =
  multithreaded :: bool
  supports_mask :: bool
  init :: "init_fn option"
  num_inputs :: "num_inputs_fn option"
  load :: "load_fn option"
  free :: "free_fn option"
  early_out :: "early_out_fn option"
  get_default_fac :: "default_fac_fn option"
  execute :: "execute_fn option"
  init_execution :: "init_execution_fn option"
  execute_slice :: "execute_slice_fn option"
  copy :: "copy_fn option"

text \<open>The bodies of the \<open>num_inputs_*\<close> functions.\<close>

fun call_num_inputs :: "num_inputs_fn \<Rightarrow> int" where
  "call_num_inputs fp_num_inputs_default = 2"
| "call_num_inputs fp_num_inputs_wipe = 2"
| "call_num_inputs fp_num_inputs_glow = 1"
| "call_num_inputs fp_num_inputs_transform = 1"
| "call_num_inputs fp_num_inputs_speed = 1"
| "call_num_inputs fp_num_inputs_color = 0"
| "call_num_inputs fp_num_inputs_multicam = 0"
| "call_num_inputs fp_num_inputs_adjustment = 0"
| "call_num_inputs fp_num_inputs_gaussian_blur = 1"
| "call_num_inputs fp_num_inputs_text = 0"

text \<open>The handle before the switch: the defaults assigned at the top of
  get_sequence_effect_impl.\<close>

definition default_handle :: SeqEffectHandle where
  "default_handle =
     \<lparr> multithreaded = False, supports_mask = False,
       init = Some fp_init_noop, num_inputs = Some fp_num_inputs_default,
       load = Some fp_load_noop, free = Some fp_free_noop,
       early_out = Some fp_early_out_noop, get_default_fac = Some fp_get_default_fac_noop,
       execute = None, init_execution = Some fp_init_execution,
       execute_slice = None, copy = None \<rparr>"

definition effect_impl_labels :: "seq_label list" where
  "effect_impl_labels =
     [SEQ_TYPE_CROSS, SEQ_TYPE_GAMCROSS, SEQ_TYPE_ADD, SEQ_TYPE_SUB, SEQ_TYPE_MUL,
      SEQ_TYPE_SCREEN, SEQ_TYPE_OVERLAY, SEQ_TYPE_COLOR_BURN, SEQ_TYPE_LINEAR_BURN,
      SEQ_TYPE_DARKEN, SEQ_TYPE_LIGHTEN, SEQ_TYPE_DODGE, SEQ_TYPE_SOFT_LIGHT,
      SEQ_TYPE_HARD_LIGHT, SEQ_TYPE_PIN_LIGHT, SEQ_TYPE_LIN_LIGHT, SEQ_TYPE_VIVID_LIGHT,
      SEQ_TYPE_BLEND_COLOR, SEQ_TYPE_HUE, SEQ_TYPE_SATURATION, SEQ_TYPE_VALUE,
      SEQ_TYPE_DIFFERENCE, SEQ_TYPE_EXCLUSION, SEQ_TYPE_COLORMIX, SEQ_TYPE_ALPHAOVER,
      SEQ_TYPE_OVERDROP, SEQ_TYPE_ALPHAUNDER, SEQ_TYPE_WIPE, SEQ_TYPE_GLOW,
      SEQ_TYPE_TRANSFORM, SEQ_TYPE_SPEED, SEQ_TYPE_COLOR, SEQ_TYPE_MULTICAM,
      SEQ_TYPE_ADJUSTMENT, SEQ_TYPE_GAUSSIAN_BLUR, SEQ_TYPE_TEXT]"

fun effect_impl_case :: "seq_label \<Rightarrow> SeqEffectHandle \<Rightarrow> SeqEffectHandle" where
  "effect_impl_case SEQ_TYPE_CROSS rval =
     rval\<lparr>multithreaded := True, execute_slice := Some fp_do_cross_effect,
          early_out := Some fp_early_out_fade, get_default_fac := Some fp_get_default_fac_fade\<rparr>"
| "effect_impl_case SEQ_TYPE_GAMCROSS rval =
     rval\<lparr>multithreaded := True, early_out := Some fp_early_out_fade,
          get_default_fac := Some fp_get_default_fac_fade,
          execute_slice := Some fp_do_gammacross_effect\<rparr>"
| "effect_impl_case SEQ_TYPE_ADD rval =
     rval\<lparr>multithreaded := True, execute_slice := Some fp_do_add_effect,
          early_out := Some fp_early_out_mul_input2\<rparr>"
| "effect_impl_case SEQ_TYPE_SUB rval =
     rval\<lparr>multithreaded := True, execute_slice := Some fp_do_sub_effect,
          early_out := Some fp_early_out_mul_input2\<rparr>"
| "effect_impl_case SEQ_TYPE_MUL rval =
     rval\<lparr>multithreaded := True, execute_slice := Some fp_do_mul_effect,
          early_out := Some fp_early_out_mul_input2\<rparr>"
| "effect_impl_case SEQ_TYPE_COLORMIX rval =
     rval\<lparr>multithreaded := True, init := Some fp_init_colormix_effect,
          free := Some fp_free_effect_default, copy := Some fp_copy_effect_default,
          execute_slice := Some fp_do_colormix_effect, early_out := Some fp_early_out_mul_input2\<rparr>"
| "effect_impl_case SEQ_TYPE_ALPHAOVER rval =
     rval\<lparr>multithreaded := True, init := Some fp_init_alpha_over_or_under,
          execute_slice := Some fp_do_alphaover_effect, early_out := Some fp_early_out_mul_input1\<rparr>"
| "effect_impl_case SEQ_TYPE_OVERDROP rval =
     rval\<lparr>multithreaded := True, execute_slice := Some fp_do_overdrop_effect\<rparr>"
| "effect_impl_case SEQ_TYPE_ALPHAUNDER rval =
     rval\<lparr>multithreaded := True, init := Some fp_init_alpha_over_or_under,
          execute_slice := Some fp_do_alphaunder_effect\<rparr>"
| "effect_impl_case SEQ_TYPE_WIPE rval =
     rval\<lparr>init := Some fp_init_wipe_effect, num_inputs := Some fp_num_inputs_wipe,
          free := Some fp_free_wipe_effect, copy := Some fp_copy_wipe_effect,
          early_out := Some fp_early_out_fade, get_default_fac := Some fp_get_default_fac_fade,
          execute := Some fp_do_wipe_effect\<rparr>"
| "effect_impl_case SEQ_TYPE_GLOW rval =
     rval\<lparr>init := Some fp_init_glow_effect, num_inputs := Some fp_num_inputs_glow,
          free := Some fp_free_glow_effect, copy := Some fp_copy_glow_effect,
          execute := Some fp_do_glow_effect\<rparr>"
| "effect_impl_case SEQ_TYPE_TRANSFORM rval =
     rval\<lparr>multithreaded := True, init := Some fp_init_transform_effect,
          num_inputs := Some fp_num_inputs_transform, free := Some fp_free_transform_effect,
          copy := Some fp_copy_transform_effect, execute_slice := Some fp_do_transform_effect\<rparr>"
| "effect_impl_case SEQ_TYPE_SPEED rval =
     rval\<lparr>init := Some fp_init_speed_effect, num_inputs := Some fp_num_inputs_speed,
          load := Some fp_load_speed_effect, free := Some fp_free_speed_effect,
          copy := Some fp_copy_speed_effect, execute := Some fp_do_speed_effect,
          early_out := Some fp_early_out_speed\<rparr>"
| "effect_impl_case SEQ_TYPE_COLOR rval =
     rval\<lparr>init := Some fp_init_solid_color, num_inputs := Some fp_num_inputs_color,
          early_out := Some fp_early_out_color, free := Some fp_free_solid_color,
          copy := Some fp_copy_solid_color, execute := Some fp_do_solid_color\<rparr>"
| "effect_impl_case SEQ_TYPE_MULTICAM rval =
     rval\<lparr>num_inputs := Some fp_num_inputs_multicam, early_out := Some fp_early_out_multicam,
          execute := Some fp_do_multicam\<rparr>"
| "effect_impl_case SEQ_TYPE_ADJUSTMENT rval =
     rval\<lparr>supports_mask := True, num_inputs := Some fp_num_inputs_adjustment,
          early_out := Some fp_early_out_adjustment, execute := Some fp_do_adjustment\<rparr>"
| "effect_impl_case SEQ_TYPE_GAUSSIAN_BLUR rval =
     rval\<lparr>init := Some fp_init_gaussian_blur_effect,
          num_inputs := Some fp_num_inputs_gaussian_blur,
          free := Some fp_free_gaussian_blur_effect, copy := Some fp_copy_gaussian_blur_effect,
          early_out := Some fp_early_out_gaussian_blur,
          execute := Some fp_do_gaussian_blur_effect\<rparr>"
| "effect_impl_case SEQ_TYPE_TEXT rval =
     rval\<lparr>num_inputs := Some fp_num_inputs_text, init := Some fp_init_text_effect,
          free := Some fp_free_text_effect, load := Some fp_load_text_effect,
          copy := Some fp_copy_text_effect, early_out := Some fp_early_out_text,
          execute := Some fp_do_text_effect\<rparr>"
| "effect_impl_case _ rval =
     rval\<lparr>multithreaded := True, execute_slice := Some fp_do_blend_mode_effect,
          early_out := Some fp_early_out_mul_input2\<rparr>"

definition get_sequence_effect_impl :: "(seq_label \<Rightarrow> int) \<Rightarrow> int \<Rightarrow> SeqEffectHandle" where
  "get_sequence_effect_impl K seq_type =
     (case switch_on K effect_impl_labels seq_type of
        None \<Rightarrow> default_handle
      | Some l \<Rightarrow> effect_impl_case l default_handle)"

definition SEQ_effect_get_num_inputs :: "(seq_label \<Rightarrow> int) \<Rightarrow> int \<Rightarrow> int" where
  "SEQ_effect_get_num_inputs K seq_type =
     (let rval = get_sequence_effect_impl K seq_type;
          count = (case num_inputs rval of Some f \<Rightarrow> call_num_inputs f | None \<Rightarrow> 0)
      in if execute rval \<noteq> None \<or> (execute_slice rval \<noteq> None \<and> init_execution rval \<noteq> None)
         then count else 0)"


text \<open>The enumerator values as Blender's DNA_sequence_types.h declares them; they are used
  for concrete evaluations only, no general theorem depends on them.\<close>

fun dna_seq_type :: "seq_label \<Rightarrow> int" where
  "dna_seq_type SEQ_TYPE_CROSS = 8"
| "dna_seq_type SEQ_TYPE_ADD = 9"
| "dna_seq_type SEQ_TYPE_SUB = 10"
| "dna_seq_type SEQ_TYPE_ALPHAOVER = 11"
| "dna_seq_type SEQ_TYPE_ALPHAUNDER = 12"
| "dna_seq_type SEQ_TYPE_GAMCROSS = 13"
| "dna_seq_type SEQ_TYPE_MUL = 14"
| "dna_seq_type SEQ_TYPE_OVERDROP = 15"
| "dna_seq_type SEQ_TYPE_WIPE = 25"
| "dna_seq_type SEQ_TYPE_GLOW = 26"
| "dna_seq_type SEQ_TYPE_TRANSFORM = 27"
| "dna_seq_type SEQ_TYPE_COLOR = 28"
| "dna_seq_type SEQ_TYPE_SPEED = 29"
| "dna_seq_type SEQ_TYPE_MULTICAM = 30"
| "dna_seq_type SEQ_TYPE_ADJUSTMENT = 31"
| "dna_seq_type SEQ_TYPE_GAUSSIAN_BLUR = 40"
| "dna_seq_type SEQ_TYPE_TEXT = 41"
| "dna_seq_type SEQ_TYPE_COLORMIX = 42"
| "dna_seq_type SEQ_TYPE_SCREEN = 43"
| "dna_seq_type SEQ_TYPE_LIGHTEN = 44"
| "dna_seq_type SEQ_TYPE_DODGE = 45"
| "dna_seq_type SEQ_TYPE_DARKEN = 46"
| "dna_seq_type SEQ_TYPE_COLOR_BURN = 47"
| "dna_seq_type SEQ_TYPE_LINEAR_BURN = 48"
| "dna_seq_type SEQ_TYPE_OVERLAY = 49"
| "dna_seq_type SEQ_TYPE_HARD_LIGHT = 50"
| "dna_seq_type SEQ_TYPE_SOFT_LIGHT = 51"
| "dna_seq_type SEQ_TYPE_PIN_LIGHT = 52"
| "dna_seq_type SEQ_TYPE_LIN_LIGHT = 53"
| "dna_seq_type SEQ_TYPE_VIVID_LIGHT = 54"
| "dna_seq_type SEQ_TYPE_HUE = 55"
| "dna_seq_type SEQ_TYPE_SATURATION = 56"
| "dna_seq_type SEQ_TYPE_VALUE = 57"
| "dna_seq_type SEQ_TYPE_BLEND_COLOR = 58"
| "dna_seq_type SEQ_TYPE_DIFFERENCE = 59"
| "dna_seq_type SEQ_TYPE_EXCLUSION = 60"

section \<open>Output allocation (prepare_effect_imbufs)\<close>

text \<open>
  An image buffer holds an optional byte pixel array and an optional float pixel array
  (\<open>byte_buffer.data\<close>, \<open>float_buffer.data\<close>; a null pointer is \<open>None\<close>). The
  pixel arrays themselves are kept abstract here (type parameters \<open>'b\<close> and \<open>'f\<close>).
\<close>

record ('b, 'f) ImBuf =
  byte_buffer :: "'b option"
  float_buffer :: "'f option"
  float_colorspace :: string
  metadata :: "(string \<times> string) list"

datatype ib_flag = IB_rect | IB_rectfloat | IB_uninitialized_pixels

record SeqRenderData =
  rectx :: int
  recty :: int
  sequencer_colorspace :: string

text \<open>
  The inputs are pointers, and the function converts the images they point to in place:
  the model threads a store \<open>mem\<close> from addresses to images, and an input is an optional
  address (\<open>None\<close> for a null pointer). The services of the image library are parameters:
  \<open>alloc x y flags\<close> for IMB_allocImBuf, \<open>to_seq\<close> for seq_imbuf_to_sequencer_space
  with \<open>make_float = true\<close>, \<open>rect_from_float\<close> for IMB_rect_from_float.
\<close>

definition has_float :: "(nat \<Rightarrow> ('b, 'f) ImBuf) \<Rightarrow> nat option \<Rightarrow> bool" where
  "has_float mem p = (case p of None \<Rightarrow> False | Some a \<Rightarrow> float_buffer (mem a) \<noteq> None)"

definition convert_if ::
  "(('b, 'f) ImBuf \<Rightarrow> bool) \<Rightarrow> (('b, 'f) ImBuf \<Rightarrow> ('b, 'f) ImBuf) \<Rightarrow>
   nat option \<Rightarrow> (nat \<Rightarrow> ('b, 'f) ImBuf) \<Rightarrow> (nat \<Rightarrow> ('b, 'f) ImBuf)" where
  \<comment> \<open>\<open>if (ibuf && cond(ibuf)) conv(ibuf);\<close>\<close>
  "convert_if cond conv p mem =
     (case p of None \<Rightarrow> mem
      | Some a \<Rightarrow> if cond (mem a) then mem(a := conv (mem a)) else mem)"

definition prepare_effect_imbufs ::
  "(int \<Rightarrow> int \<Rightarrow> ib_flag set \<Rightarrow> ('b, 'f) ImBuf) \<Rightarrow>
   (('b, 'f) ImBuf \<Rightarrow> ('b, 'f) ImBuf) \<Rightarrow> (('b, 'f) ImBuf \<Rightarrow> ('b, 'f) ImBuf) \<Rightarrow>
   SeqRenderData \<Rightarrow> (nat \<Rightarrow> ('b, 'f) ImBuf) \<Rightarrow> nat option \<Rightarrow> nat option \<Rightarrow> bool \<Rightarrow>
   ('b, 'f) ImBuf \<times> (nat \<Rightarrow> ('b, 'f) ImBuf)" where
  "prepare_effect_imbufs alloc to_seq rect_from_float context mem ibuf1 ibuf2 uninitialized_pixels =
     (let x = rectx context;
          y = recty context;
          base_flags = (if uninitialized_pixels then {IB_uninitialized_pixels} else {});
          out = (if ibuf1 = None \<and> ibuf2 = None then alloc x y ({IB_rect} \<union> base_flags)
                 else if has_float mem ibuf1 \<or> has_float mem ibuf2
                 then alloc x y ({IB_rectfloat} \<union> base_flags)
                 else alloc x y ({IB_rect} \<union> base_flags));
          (out1, mem1) =
            (if float_buffer out \<noteq> None
             then (out\<lparr>float_colorspace := sequencer_colorspace context\<rparr>,
                   convert_if (\<lambda>b. float_buffer b = None) to_seq ibuf2
                     (convert_if (\<lambda>b. float_buffer b = None) to_seq ibuf1 mem))
             else (out,
                   convert_if (\<lambda>b. byte_buffer b = None) rect_from_float ibuf2
                     (convert_if (\<lambda>b. byte_buffer b = None) rect_from_float ibuf1 mem)));
          out2 = (case ibuf1 of
                    Some a \<Rightarrow> if ibuf1 = ibuf2 then out1\<lparr>metadata := metadata (mem1 a)\<rparr> else out1
                  | None \<Rightarrow> out1)
      in (out2, mem1))"

text \<open>What the callers rely on from IMB_allocImBuf: the buffers it creates are those the
  flags ask for.\<close>

definition alloc_contract :: "(int \<Rightarrow> int \<Rightarrow> ib_flag set \<Rightarrow> ('b, 'f) ImBuf) \<Rightarrow> bool" where
  "alloc_contract alloc =
     (\<forall>x y flags. (byte_buffer (alloc x y flags) \<noteq> None) = (IB_rect \<in> flags)
                \<and> (float_buffer (alloc x y flags) \<noteq> None) = (IB_rectfloat \<in> flags))"

text \<open>What they rely on from seq_imbuf_to_sequencer_space with \<open>make_float\<close>: an image with
  byte pixels has float pixels afterwards.\<close>

definition to_float_contract :: "(('b, 'f) ImBuf \<Rightarrow> ('b, 'f) ImBuf) \<Rightarrow> bool" where
  "to_float_contract to_seq = (\<forall>b. byte_buffer b \<noteq> None \<longrightarrow> float_buffer (to_seq b) \<noteq> None)"

text \<open>An input is either absent or an image with at least one pixel array.\<close>

definition input_ok :: "(nat \<Rightarrow> ('b, 'f) ImBuf) \<Rightarrow> nat option \<Rightarrow> bool" where
  "input_ok mem p =
     (case p of None \<Rightarrow> True
      | Some a \<Rightarrow> byte_buffer (mem a) \<noteq> None \<or> float_buffer (mem a) \<noteq> None)"

text \<open>Concrete services for evaluation: pixel arrays are natural numbers naming them.\<close>

definition demo_alloc :: "int \<Rightarrow> int \<Rightarrow> ib_flag set \<Rightarrow> (nat, nat) ImBuf" where
  "demo_alloc x y flags =
     \<lparr> byte_buffer = (if IB_rect \<in> flags then Some 0 else None),
       float_buffer = (if IB_rectfloat \<in> flags then Some 0 else None),
       float_colorspace = [], metadata = [] \<rparr>"

definition demo_to_seq :: "(nat, nat) ImBuf \<Rightarrow> (nat, nat) ImBuf" where
  "demo_to_seq b =
     (case byte_buffer b of None \<Rightarrow> b
      | Some n \<Rightarrow> b\<lparr>byte_buffer := None, float_buffer := Some n\<rparr>)"

definition demo_rect_from_float :: "(nat, nat) ImBuf \<Rightarrow> (nat, nat) ImBuf" where
  "demo_rect_from_float b =
     (case float_buffer b of None \<Rightarrow> b | Some n \<Rightarrow> b\<lparr>byte_buffer := Some n\<rparr>)"

definition demo_mem :: "nat \<Rightarrow> (nat, nat) ImBuf" where
  "demo_mem a =
     (if a = 1
      then \<lparr> byte_buffer = None, float_buffer = Some 7, float_colorspace = [], metadata = [] \<rparr>
      else \<lparr> byte_buffer = Some 5, float_buffer = None, float_colorspace = [], metadata = [] \<rparr>)"

definition demo_context :: SeqRenderData where
  "demo_context = \<lparr> rectx = 4, recty = 4, sequencer_colorspace = ''Linear'' \<rparr>"

section \<open>Floating-point values\<close>

text \<open>
  A binary floating-point value is a finite number, a negative zero, an infinity (with its
  sign, \<open>True\<close> for negative) or a NaN; \<open>Fin 0\<close> is the positive zero. The NaN payload is
  not modelled. The arithmetic follows IEEE 754 for the special values and the sign of
  zero results; the rounding of a nonzero exact result to the format (including overflow
  to an infinity and underflow to a zero) is the parameter \<open>rnd\<close> of every operation.
  A number \<open>v\<close> is representable in the format when \<open>rnd v = Fin v\<close>.
\<close>

datatype float = Fin real | NegZero | Infty bool | NaN

type_synonym rounding = "real \<Rightarrow> float"

fun is_neg :: "float \<Rightarrow> bool" where
  "is_neg (Fin r) = (r < 0)"
| "is_neg NegZero = True"
| "is_neg (Infty s) = s"
| "is_neg NaN = False"

fun fval :: "float \<Rightarrow> real" where
  "fval (Fin r) = r"
| "fval _ = 0"

fun is_fin :: "float \<Rightarrow> bool" where
  "is_fin (Fin r) = True"
| "is_fin NegZero = True"
| "is_fin _ = False"

fun is_inf :: "float \<Rightarrow> bool" where
  "is_inf (Infty s) = True"
| "is_inf _ = False"

definition is_zero :: "float \<Rightarrow> bool" where
  "is_zero x = (x = Fin 0 \<or> x = NegZero)"

definition fzero :: "bool \<Rightarrow> float" where
  "fzero neg = (if neg then NegZero else Fin 0)"

definition fmul :: "rounding \<Rightarrow> float \<Rightarrow> float \<Rightarrow> float" where
  "fmul rnd x y =
     (if x = NaN \<or> y = NaN then NaN
      else if is_inf x \<or> is_inf y
      then (if is_zero x \<or> is_zero y then NaN else Infty (is_neg x \<noteq> is_neg y))
      else if fval x * fval y = 0 then fzero (is_neg x \<noteq> is_neg y)
      else rnd (fval x * fval y))"

definition fadd :: "rounding \<Rightarrow> float \<Rightarrow> float \<Rightarrow> float" where
  "fadd rnd x y =
     (if x = NaN \<or> y = NaN then NaN
      else if is_inf x \<and> is_inf y then (if is_neg x = is_neg y then x else NaN)
      else if is_inf x then x
      else if is_inf y then y
      else if fval x + fval y = 0 then fzero (x = NegZero \<and> y = NegZero)
      else rnd (fval x + fval y))"

fun fneg :: "float \<Rightarrow> float" where
  "fneg (Fin r) = (if r = 0 then NegZero else Fin (- r))"
| "fneg NegZero = Fin 0"
| "fneg (Infty s) = Infty (\<not> s)"
| "fneg NaN = NaN"

definition fsub :: "rounding \<Rightarrow> float \<Rightarrow> float \<Rightarrow> float" where
  "fsub rnd x y = fadd rnd x (fneg y)"

definition fdiv :: "rounding \<Rightarrow> float \<Rightarrow> float \<Rightarrow> float" where
  "fdiv rnd x y =
     (if x = NaN \<or> y = NaN then NaN
      else if is_inf x then (if is_inf y then NaN else Infty (is_neg x \<noteq> is_neg y))
      else if is_inf y then fzero (is_neg x \<noteq> is_neg y)
      else if is_zero y then (if is_zero x then NaN else Infty (is_neg x \<noteq> is_neg y))
      else if is_zero x then fzero (is_neg x \<noteq> is_neg y)
      else rnd (fval x / fval y))"

text \<open>Comparisons: false as soon as an operand is a NaN; the two zeros are equal.\<close>

definition flt :: "float \<Rightarrow> float \<Rightarrow> bool" where
  "flt x y =
     (if x = NaN \<or> y = NaN then False
      else if is_inf x then (is_neg x \<and> \<not> (is_inf y \<and> is_neg y))
      else if is_inf y then \<not> is_neg y
      else fval x < fval y)"

definition feq :: "float \<Rightarrow> float \<Rightarrow> bool" where
  "feq x y =
     (if x = NaN \<or> y = NaN then False
      else if is_inf x \<or> is_inf y then x = y
      else fval x = fval y)"

definition max_ff :: "float \<Rightarrow> float \<Rightarrow> float" where
  \<comment> \<open>\<open>(a > b) ? a : b\<close>\<close>
  "max_ff a b = (if flt b a then a else b)"

text \<open>Conversions. An integer converts to the nearest float. A float converts to an integer
  by truncation towards zero; C++ leaves the conversion of a NaN, of an infinity and of a
  value out of the target's range undefined, the model returns 0 for the first two and
  wraps for the third, and no theorem below converts such a value.\<close>

definition float_of_int :: "rounding \<Rightarrow> int \<Rightarrow> float" where
  "float_of_int rnd i = (if i = 0 then Fin 0 else rnd (of_int i))"

definition trunc_real :: "real \<Rightarrow> int" where
  "trunc_real r = (if 0 \<le> r then \<lfloor>r\<rfloor> else \<lceil>r\<rceil>)"

fun int_of_float :: "float \<Rightarrow> int" where
  "int_of_float (Fin r) = trunc_real r"
| "int_of_float _ = 0"

type_synonym uchar = "8 word"

definition uchar_of_float :: "float \<Rightarrow> uchar" where
  "uchar_of_float x = word_of_int (int_of_float x)"

definition float_of_uchar :: "rounding \<Rightarrow> uchar \<Rightarrow> float" where
  "float_of_uchar rnd b = float_of_int rnd (uint b)"

text \<open>The rounding is exact on a set of numbers: each of them is representable.\<close>

definition exact_on :: "rounding \<Rightarrow> real set \<Rightarrow> bool" where
  "exact_on rnd S = (\<forall>v\<in>S. rnd v = Fin v)"

definition representable :: "rounding \<Rightarrow> float \<Rightarrow> bool" where
  "representable rnd x = (case x of Fin v \<Rightarrow> v = 0 \<or> rnd v = Fin v | _ \<Rightarrow> True)"

definition FLT_MAX :: real where
  \<comment> \<open>\<open>std::numeric_limits<float>::max()\<close>, that is \<open>(2 - 2\<^sup>-\<^sup>2\<^sup>3) * 2\<^sup>1\<^sup>2\<^sup>7\<close>\<close>
  "FLT_MAX = 340282346638528859811704183484516925440"



section \<open>Pixel loops over raw buffers\<close>

text \<open>
  The per-pixel effect functions walk raw pointers (\<open>const T *src1\<close>, \<open>T *src2\<close>,
  \<open>T *dst\<close>) over buffers of four channels per pixel. The model keeps one store per
  channel type \<open>T\<close> (\<open>uchar\<close> or \<open>float\<close>): a function from addresses, counted in
  elements, to channel values. A pointer is an address, and the loops thread the three
  pointers and the store. Nothing is assumed about the buffers overlapping.
\<close>

type_synonym 'a heap = "nat \<Rightarrow> 'a"

type_synonym 'a pixel_body = "nat \<Rightarrow> nat \<Rightarrow> nat \<Rightarrow> 'a heap \<Rightarrow> 'a heap"

type_synonym 'a loop_state = "nat \<times> nat \<times> nat \<times> 'a heap"

definition heap_of :: "'a loop_state \<Rightarrow> 'a heap" where
  "heap_of s = snd (snd (snd s))"

text \<open>\<open>for (j = 0; j < x; j++) { body; p1 += 4; p2 += 4; d += 4; }\<close>\<close>

fun row_loop :: "'a pixel_body \<Rightarrow> nat \<Rightarrow> 'a loop_state \<Rightarrow> 'a loop_state" where
  "row_loop body 0 s = s"
| "row_loop body (Suc j) (p1, p2, d, mem) =
     row_loop body j (p1 + 4, p2 + 4, d + 4, body p1 p2 d mem)"

text \<open>\<open>for (i = 0; i < y; i++) for (j = 0; j < x; j++) ...\<close>\<close>

fun image_loop :: "'a pixel_body \<Rightarrow> nat \<Rightarrow> nat \<Rightarrow> 'a loop_state \<Rightarrow> 'a loop_state" where
  "image_loop body x 0 s = s"
| "image_loop body x (Suc i) s = image_loop body x i (row_loop body x s)"

definition for_each_pixel ::
  "'a pixel_body \<Rightarrow> int \<Rightarrow> int \<Rightarrow> nat \<Rightarrow> nat \<Rightarrow> nat \<Rightarrow> 'a heap \<Rightarrow> 'a heap" where
  "for_each_pixel body x y p1 p2 d mem = heap_of (image_loop body (nat x) (nat y) (p1, p2, d, mem))"

text \<open>
  Most bodies are four assignments \<open>dst[0] = e0; dst[1] = e1; dst[2] = e2; dst[3] = e3;\<close>
  whose right-hand sides read the store as it is when the assignment runs. \<open>e c\<close> is
  the right-hand side of the assignment to channel \<open>c\<close>.
\<close>

definition pixel_assign4 :: "(nat \<Rightarrow> 'a heap \<Rightarrow> 'a) \<Rightarrow> nat \<Rightarrow> 'a heap \<Rightarrow> 'a heap" where
  "pixel_assign4 e d mem =
     (let m0 = mem(d := e 0 mem);
          m1 = m0(d + 1 := e 1 m0);
          m2 = m1(d + 2 := e 2 m1);
          m3 = m2(d + 3 := e 3 m2)
      in m3)"

section \<open>Cross effect\<close>

definition cross_byte_pixel :: "int \<Rightarrow> int \<Rightarrow> uchar pixel_body" where
  \<comment> \<open>\<open>rt[c] = (temp_mfac * rt1[c] + temp_fac * rt2[c]) >> 8\<close> for \<open>c = 0, 1, 2, 3\<close>\<close>
  "cross_byte_pixel temp_fac temp_mfac rt1 rt2 rt =
     pixel_assign4
       (\<lambda>c m. word_of_int ((temp_mfac * uint (m (rt1 + c)) + temp_fac * uint (m (rt2 + c))) div 2 ^ 8))
       rt"

definition do_cross_effect_byte ::
  "rounding \<Rightarrow> float \<Rightarrow> int \<Rightarrow> int \<Rightarrow> nat \<Rightarrow> nat \<Rightarrow> nat \<Rightarrow> uchar heap \<Rightarrow> uchar heap" where
  "do_cross_effect_byte rnd fac x y rect1 rect2 out mem =
     (let temp_fac = int_of_float (fmul rnd (Fin 256) fac);
          temp_mfac = 256 - temp_fac
      in for_each_pixel (cross_byte_pixel temp_fac temp_mfac) x y rect1 rect2 out mem)"

definition cross_float_pixel :: "rounding \<Rightarrow> float \<Rightarrow> float \<Rightarrow> float pixel_body" where
  \<comment> \<open>\<open>rt[c] = mfac * rt1[c] + fac * rt2[c]\<close> for \<open>c = 0, 1, 2, 3\<close>\<close>
  "cross_float_pixel rnd fac mfac rt1 rt2 rt =
     pixel_assign4
       (\<lambda>c m. fadd rnd (fmul rnd mfac (m (rt1 + c))) (fmul rnd fac (m (rt2 + c))))
       rt"

definition do_cross_effect_float ::
  "rounding \<Rightarrow> float \<Rightarrow> int \<Rightarrow> int \<Rightarrow> nat \<Rightarrow> nat \<Rightarrow> nat \<Rightarrow> float heap \<Rightarrow> float heap" where
  "do_cross_effect_float rnd fac x y rect1 rect2 out mem =
     (let mfac = fsub rnd (Fin 1) fac
      in for_each_pixel (cross_float_pixel rnd fac mfac) x y rect1 rect2 out mem)"

datatype StripEarlyOut = NoInput | DoEffect | UseInput1 | UseInput2

definition early_out_fade :: "float \<Rightarrow> StripEarlyOut" where
  "early_out_fade fac =
     (if feq fac (Fin 0) then UseInput1
      else if feq fac (Fin 1) then UseInput2
      else DoEffect)"

text \<open>Modelled from the spec: the dispatcher that consumes the early-out lives in render.cc,
  which is not part of the sources at hand. By section 4.5 of the specification,
  \<open>UseInput1\<close> and \<open>UseInput2\<close> short-circuit to the chosen input, and no effect output is
  computed; the other two answers do not pick an input.\<close>

fun early_out_image :: "StripEarlyOut \<Rightarrow> 'i \<Rightarrow> 'i \<Rightarrow> 'i option" where
  "early_out_image UseInput1 ibuf1 ibuf2 = Some ibuf1"
| "early_out_image UseInput2 ibuf1 ibuf2 = Some ibuf2"
| "early_out_image _ ibuf1 ibuf2 = None"

text \<open>The exact rounding: every real number is representable. It serves the concrete
  evaluations.\<close>

definition exact_rnd :: rounding where
  "exact_rnd r = Fin r"

text \<open>A pixel body that writes nothing but the four channels of its destination pixel.\<close>

definition frame_body :: "'a pixel_body \<Rightarrow> bool" where
  "frame_body body = (\<forall>p1 p2 d mem a. a \<notin> {d..<d + 4} \<longrightarrow> body p1 p2 d mem a = mem a)"

section \<open>Add and subtract effects\<close>

definition add_byte_pixel :: "int \<Rightarrow> uchar pixel_body" where
  \<comment> \<open>\<open>temp_fac2 = temp_fac * int(cp2[3]);
      rt[c] = min_ii(cp1[c] + ((temp_fac2 * cp2[c]) >> 16), 255)\<close> for \<open>c = 0, 1, 2\<close>;
      \<open>rt[3] = cp1[3]\<close>\<close>
  "add_byte_pixel temp_fac cp1 cp2 rt mem =
     (let temp_fac2 = temp_fac * uint (mem (cp2 + 3))
      in pixel_assign4
           (\<lambda>c m. if c < 3
                   then word_of_int (min (uint (m (cp1 + c)) + (temp_fac2 * uint (m (cp2 + c))) div 2 ^ 16) 255)
                   else m (cp1 + 3))
           rt mem)"

definition do_add_effect_byte ::
  "rounding \<Rightarrow> float \<Rightarrow> int \<Rightarrow> int \<Rightarrow> nat \<Rightarrow> nat \<Rightarrow> nat \<Rightarrow> uchar heap \<Rightarrow> uchar heap" where
  "do_add_effect_byte rnd fac x y rect1 rect2 out mem =
     (let temp_fac = int_of_float (fmul rnd (Fin 256) fac)
      in for_each_pixel (add_byte_pixel temp_fac) x y rect1 rect2 out mem)"

definition add_float_pixel :: "rounding \<Rightarrow> float \<Rightarrow> float pixel_body" where
  \<comment> \<open>\<open>temp_fac = (1.0f - (rt1[3] * (1.0f - fac))) * rt2[3];
      rt[c] = rt1[c] + temp_fac * rt2[c]\<close> for \<open>c = 0, 1, 2\<close>; \<open>rt[3] = rt1[3]\<close>\<close>
  "add_float_pixel rnd fac rt1 rt2 rt mem =
     (let temp_fac = fmul rnd (fsub rnd (Fin 1) (fmul rnd (mem (rt1 + 3)) (fsub rnd (Fin 1) fac)))
                       (mem (rt2 + 3))
      in pixel_assign4
           (\<lambda>c m. if c < 3
                   then fadd rnd (m (rt1 + c)) (fmul rnd temp_fac (m (rt2 + c)))
                   else m (rt1 + 3))
           rt mem)"

definition do_add_effect_float ::
  "rounding \<Rightarrow> float \<Rightarrow> int \<Rightarrow> int \<Rightarrow> nat \<Rightarrow> nat \<Rightarrow> nat \<Rightarrow> float heap \<Rightarrow> float heap" where
  "do_add_effect_float rnd fac x y rect1 rect2 out mem =
     for_each_pixel (add_float_pixel rnd fac) x y rect1 rect2 out mem"

definition sub_byte_pixel :: "int \<Rightarrow> uchar pixel_body" where
  \<comment> \<open>\<open>temp_fac2 = temp_fac * int(cp2[3]);
      rt[c] = max_ii(cp1[c] - ((temp_fac2 * cp2[c]) >> 16), 0)\<close> for \<open>c = 0, 1, 2\<close>;
      \<open>rt[3] = cp1[3]\<close>\<close>
  "sub_byte_pixel temp_fac cp1 cp2 rt mem =
     (let temp_fac2 = temp_fac * uint (mem (cp2 + 3))
      in pixel_assign4
           (\<lambda>c m. if c < 3
                   then word_of_int (max (uint (m (cp1 + c)) - (temp_fac2 * uint (m (cp2 + c))) div 2 ^ 16) 0)
                   else m (cp1 + 3))
           rt mem)"

definition do_sub_effect_byte ::
  "rounding \<Rightarrow> float \<Rightarrow> int \<Rightarrow> int \<Rightarrow> nat \<Rightarrow> nat \<Rightarrow> nat \<Rightarrow> uchar heap \<Rightarrow> uchar heap" where
  "do_sub_effect_byte rnd fac x y rect1 rect2 out mem =
     (let temp_fac = int_of_float (fmul rnd (Fin 256) fac)
      in for_each_pixel (sub_byte_pixel temp_fac) x y rect1 rect2 out mem)"

definition sub_float_pixel :: "rounding \<Rightarrow> float \<Rightarrow> float pixel_body" where
  \<comment> \<open>\<open>temp_fac = (1.0f - (rt1[3] * mfac)) * rt2[3];
      rt[c] = max_ff(rt1[c] - temp_fac * rt2[c], 0.0f)\<close> for \<open>c = 0, 1, 2\<close>;
      \<open>rt[3] = rt1[3]\<close>\<close>
  "sub_float_pixel rnd mfac rt1 rt2 rt mem =
     (let temp_fac = fmul rnd (fsub rnd (Fin 1) (fmul rnd (mem (rt1 + 3)) mfac)) (mem (rt2 + 3))
      in pixel_assign4
           (\<lambda>c m. if c < 3
                   then max_ff (fsub rnd (m (rt1 + c)) (fmul rnd temp_fac (m (rt2 + c)))) (Fin 0)
                   else m (rt1 + 3))
           rt mem)"

definition do_sub_effect_float ::
  "rounding \<Rightarrow> float \<Rightarrow> int \<Rightarrow> int \<Rightarrow> nat \<Rightarrow> nat \<Rightarrow> nat \<Rightarrow> float heap \<Rightarrow> float heap" where
  "do_sub_effect_float rnd fac x y rect1 rect2 out mem =
     (let mfac = fsub rnd (Fin 1) fac
      in for_each_pixel (sub_float_pixel rnd mfac) x y rect1 rect2 out mem)"

section \<open>Blend mode effects\<close>

text \<open>
  The per-mode blend functions (\<open>blend_color_add_byte\<close>, \<open>blend_color_add_float\<close>, ...)
  come from BLI_math_color_blend.h, which is not part of the sources at hand. They are
  called as \<open>blend_function(dst, src1, src2)\<close>; in the model a blend function is a
  parameter that transforms the store, given the three pointers.
\<close>

type_synonym 'a blend_fn = "nat \<Rightarrow> nat \<Rightarrow> nat \<Rightarrow> 'a heap \<Rightarrow> 'a heap"

datatype blend_name = blend_color_add | blend_color_sub | blend_color_mul
  | blend_color_darken | blend_color_burn | blend_color_linearburn | blend_color_screen
  | blend_color_lighten | blend_color_dodge | blend_color_overlay | blend_color_softlight
  | blend_color_hardlight | blend_color_pinlight | blend_color_linearlight
  | blend_color_vividlight | blend_color_color | blend_color_hue | blend_color_saturation
  | blend_color_luminosity | blend_color_difference | blend_color_exclusion

text \<open>What the effect code relies on: a blend function writes the four channels of
  \<open>dst\<close> and nothing else.\<close>

definition blend_fn_frame :: "'a blend_fn \<Rightarrow> bool" where
  "blend_fn_frame bf = (\<forall>d s1 s2 mem a. a \<notin> {d..<d + 4} \<longrightarrow> bf d s1 s2 mem a = mem a)"

text \<open>The body of the loop of apply_blend_function. \<open>scale achannel fac\<close> is
  \<open>T(achannel * fac)\<close>.\<close>

definition blend_pixel :: "('a \<Rightarrow> float \<Rightarrow> 'a) \<Rightarrow> float \<Rightarrow> 'a blend_fn \<Rightarrow> 'a pixel_body" where
  "blend_pixel scale fac blend_function src1 src2 dst mem =
     (let achannel = mem (src2 + 3);
          m1 = mem(src2 + 3 := scale achannel fac);
          m2 = blend_function dst src1 src2 m1;
          m3 = m2(src2 + 3 := achannel);
          m4 = m3(dst + 3 := m3 (src1 + 3))
      in m4)"

definition apply_blend_function ::
  "('a \<Rightarrow> float \<Rightarrow> 'a) \<Rightarrow> float \<Rightarrow> int \<Rightarrow> int \<Rightarrow> nat \<Rightarrow> nat \<Rightarrow> nat \<Rightarrow> 'a blend_fn \<Rightarrow>
   'a heap \<Rightarrow> 'a heap" where
  "apply_blend_function scale fac width height src1 src2 dst blend_function mem =
     for_each_pixel (blend_pixel scale fac blend_function) width height src1 src2 dst mem"

definition scale_uchar :: "rounding \<Rightarrow> uchar \<Rightarrow> float \<Rightarrow> uchar" where
  "scale_uchar rnd achannel fac = uchar_of_float (fmul rnd (float_of_uchar rnd achannel) fac)"

definition scale_float :: "rounding \<Rightarrow> float \<Rightarrow> float \<Rightarrow> float" where
  "scale_float rnd achannel fac = fmul rnd achannel fac"

text \<open>The switch of do_blend_effect_float and do_blend_effect_byte: each case label with
  the blend function it passes on, in the order of the source.\<close>

definition blend_cases :: "(seq_label \<times> blend_name) list" where
  "blend_cases =
     [(SEQ_TYPE_ADD, blend_color_add), (SEQ_TYPE_SUB, blend_color_sub),
      (SEQ_TYPE_MUL, blend_color_mul), (SEQ_TYPE_DARKEN, blend_color_darken),
      (SEQ_TYPE_COLOR_BURN, blend_color_burn), (SEQ_TYPE_LINEAR_BURN, blend_color_linearburn),
      (SEQ_TYPE_SCREEN, blend_color_screen), (SEQ_TYPE_LIGHTEN, blend_color_lighten),
      (SEQ_TYPE_DODGE, blend_color_dodge), (SEQ_TYPE_OVERLAY, blend_color_overlay),
      (SEQ_TYPE_SOFT_LIGHT, blend_color_softlight), (SEQ_TYPE_HARD_LIGHT, blend_color_hardlight),
      (SEQ_TYPE_PIN_LIGHT, blend_color_pinlight), (SEQ_TYPE_LIN_LIGHT, blend_color_linearlight),
      (SEQ_TYPE_VIVID_LIGHT, blend_color_vividlight), (SEQ_TYPE_BLEND_COLOR, blend_color_color),
      (SEQ_TYPE_HUE, blend_color_hue), (SEQ_TYPE_SATURATION, blend_color_saturation),
      (SEQ_TYPE_VALUE, blend_color_luminosity), (SEQ_TYPE_DIFFERENCE, blend_color_difference),
      (SEQ_TYPE_EXCLUSION, blend_color_exclusion)]"

definition blend_case_of :: "(seq_label \<Rightarrow> int) \<Rightarrow> int \<Rightarrow> blend_name option" where
  "blend_case_of K btype = map_option snd (find (\<lambda>lb. K (fst lb) = btype) blend_cases)"

text \<open>do_blend_effect_float and do_blend_effect_byte are the same text up to the channel
  type and the suffix of the blend functions; \<open>run\<close> gives the blend function of that
  channel type for each name, and \<open>scale\<close> is \<open>scale_float\<close> or \<open>scale_uchar\<close>.\<close>

definition do_blend_effect ::
  "(seq_label \<Rightarrow> int) \<Rightarrow> (blend_name \<Rightarrow> 'a blend_fn) \<Rightarrow> ('a \<Rightarrow> float \<Rightarrow> 'a) \<Rightarrow>
   float \<Rightarrow> int \<Rightarrow> int \<Rightarrow> nat \<Rightarrow> nat \<Rightarrow> int \<Rightarrow> nat \<Rightarrow> 'a heap \<Rightarrow> 'a heap" where
  "do_blend_effect K run scale fac x y rect1 rect2 btype out mem =
     (case blend_case_of K btype of
        Some b \<Rightarrow> apply_blend_function scale fac x y rect1 rect2 out (run b) mem
      | None \<Rightarrow> mem)"

text \<open>slice_get_byte_buffers and slice_get_float_buffers: the slice starts
  \<open>4 * start_line * context->rectx\<close> elements into each buffer.\<close>

definition slice_offset :: "int \<Rightarrow> int \<Rightarrow> nat" where
  "slice_offset width start_line = nat (4 * start_line * width)"

definition do_blend_mode_effect ::
  "(seq_label \<Rightarrow> int) \<Rightarrow> (blend_name \<Rightarrow> 'a blend_fn) \<Rightarrow> ('a \<Rightarrow> float \<Rightarrow> 'a) \<Rightarrow>
   SeqRenderData \<Rightarrow> int \<Rightarrow> float \<Rightarrow> nat \<Rightarrow> nat \<Rightarrow> int \<Rightarrow> int \<Rightarrow> nat \<Rightarrow> 'a heap \<Rightarrow> 'a heap" where
  "do_blend_mode_effect K run scale context blend_mode fac ibuf1 ibuf2 start_line total_lines out mem =
     (let offset = slice_offset (rectx context) start_line
      in do_blend_effect K run scale fac (rectx context) total_lines
           (ibuf1 + offset) (ibuf2 + offset) blend_mode (out + offset) mem)"

record ColorMixVars =
  blend_effect :: int
  factor :: float

definition do_colormix_effect ::
  "(seq_label \<Rightarrow> int) \<Rightarrow> (blend_name \<Rightarrow> 'a blend_fn) \<Rightarrow> ('a \<Rightarrow> float \<Rightarrow> 'a) \<Rightarrow>
   SeqRenderData \<Rightarrow> ColorMixVars \<Rightarrow> float \<Rightarrow> nat \<Rightarrow> nat \<Rightarrow> int \<Rightarrow> int \<Rightarrow> nat \<Rightarrow> 'a heap \<Rightarrow> 'a heap" where
  "do_colormix_effect K run scale context data unused_fac ibuf1 ibuf2 start_line total_lines out mem =
     (let fac = factor data;
          offset = slice_offset (rectx context) start_line
      in do_blend_effect K run scale fac (rectx context) total_lines
           (ibuf1 + offset) (ibuf2 + offset) (blend_effect data) (out + offset) mem)"

text \<open>A blend function for concrete evaluations: it adds the channels of the two sources,
  with the alpha of \<open>src2\<close> as the result's alpha.\<close>

definition demo_blend :: "blend_name \<Rightarrow> uchar blend_fn" where
  "demo_blend b dst src1 src2 =
     pixel_assign4 (\<lambda>c m. if c < 3 then m (src1 + c) + m (src2 + c) else m (src2 + 3)) dst"

definition demo_bytes :: "uchar heap" where
  "demo_bytes a = (if a < 4 then 10 else if a < 8 then 200 else 0)"

definition demo_floats :: "float heap" where
  "demo_floats a = (if a < 4 then Fin 1 else if a < 8 then Fin 2 else Fin 0)"

definition demo_floats_inf :: "float heap" where
  "demo_floats_inf a = (if a < 4 then Fin 1 else if a < 8 then Infty False else Fin 0)"

section \<open>Gaussian blur passes\<close>

text \<open>A \<open>float4\<close> is indexed by its component, 0 to 3.\<close>

type_synonym float4 = "nat \<Rightarrow> float"

text \<open>
  The weighted sum of the inner loop of gaussian_blur_x and gaussian_blur_y:
  \<open>for (n = nmin, index = ...; n <= nmax; n++, index++)
       { weight = gaussian[index]; accum += float4(rect + offset) * weight;
         accum_weight += weight; }\<close>.
  \<open>sample n\<close> is the pixel \<open>float4(rect + offset)\<close> of the neighbour \<open>n\<close>. A kernel index
  out of the range of the kernel is undefined in C++; the theorems below keep it in range.
\<close>

function accum_loop ::
  "rounding \<Rightarrow> float list \<Rightarrow> (int \<Rightarrow> float4) \<Rightarrow> int \<Rightarrow> int \<Rightarrow> int \<Rightarrow> float4 \<times> float \<Rightarrow> float4 \<times> float" where
  "accum_loop rnd gaussian sample nmax n index (accum, accum_weight) =
     (if n \<le> nmax
      then let weight = gaussian ! nat index
           in accum_loop rnd gaussian sample nmax (n + 1) (index + 1)
                (\<lambda>c. fadd rnd (accum c) (fmul rnd (sample n c) weight),
                 fadd rnd accum_weight weight)
      else (accum, accum_weight))"
  by pat_completeness auto
termination
  by (relation "measure (\<lambda>(rnd, gaussian, sample, nmax, n, index, acc). nat (nmax + 1 - n))") auto

declare accum_loop.simps [simp del]

text \<open>
  The body of the pixel loop of gaussian_blur_x. \<open>ld\<close> (load) converts a channel of type \<open>T\<close> to
  float (\<open>float4(rect + offset)\<close>), \<open>store\<close> is the conversion of the assignment to
  \<open>dst[c]\<close>: \<open>accum[c]\<close> for float buffers and \<open>accum[c] + 0.5f\<close>, converted to
  \<open>uchar\<close>, for byte buffers.
\<close>

definition gaussian_blur_x_pixel ::
  "rounding \<Rightarrow> ('a \<Rightarrow> float) \<Rightarrow> (float \<Rightarrow> 'a) \<Rightarrow> float list \<Rightarrow> int \<Rightarrow> int \<Rightarrow> nat \<Rightarrow>
   int \<Rightarrow> int \<Rightarrow> nat \<Rightarrow> 'a heap \<Rightarrow> 'a heap" where
  "gaussian_blur_x_pixel rnd ld st gaussian half_size width rect y x dst mem =
     (let xmin = max (x - half_size) 0;
          xmax = min (x + half_size) (width - 1);
          (accum, accum_weight) =
             accum_loop rnd gaussian (\<lambda>nx c. ld (mem (rect + nat ((y * width + nx) * 4) + c)))
               xmax xmin ((xmin - x) + half_size) (\<lambda>c. Fin 0, Fin 0);
          inv_weight = fdiv rnd (Fin 1) accum_weight
      in pixel_assign4 (\<lambda>c m. st (fmul rnd (accum c) inv_weight)) dst mem)"

definition gaussian_blur_y_pixel ::
  "rounding \<Rightarrow> ('a \<Rightarrow> float) \<Rightarrow> (float \<Rightarrow> 'a) \<Rightarrow> float list \<Rightarrow> int \<Rightarrow> int \<Rightarrow> int \<Rightarrow> nat \<Rightarrow>
   int \<Rightarrow> int \<Rightarrow> nat \<Rightarrow> 'a heap \<Rightarrow> 'a heap" where
  "gaussian_blur_y_pixel rnd ld st gaussian half_size width frame_height rect y x dst mem =
     (let ymin = max (y - half_size) 0;
          ymax = min (y + half_size) (frame_height - 1);
          (accum, accum_weight) =
             accum_loop rnd gaussian (\<lambda>ny c. ld (mem (rect + nat ((ny * width + x) * 4) + c)))
               ymax ymin ((ymin - y) + half_size) (\<lambda>c. Fin 0, Fin 0);
          inv_weight = fdiv rnd (Fin 1) accum_weight
      in pixel_assign4 (\<lambda>c m. st (fmul rnd (accum c) inv_weight)) dst mem)"

text \<open>\<open>for (int x = 0; x < width; x++) { body; dst += 4; }\<close> and
  \<open>for (int y = start_line; y < start_line + height; y++) ...\<close>, threading \<open>dst\<close> and
  the store.\<close>

fun blur_cols ::
  "(int \<Rightarrow> int \<Rightarrow> nat \<Rightarrow> 'a heap \<Rightarrow> 'a heap) \<Rightarrow> int \<Rightarrow> nat \<Rightarrow> int \<Rightarrow> nat \<times> 'a heap \<Rightarrow> nat \<times> 'a heap" where
  "blur_cols body y 0 x s = s"
| "blur_cols body y (Suc n) x (dst, mem) = blur_cols body y n (x + 1) (dst + 4, body y x dst mem)"

fun blur_rows ::
  "(int \<Rightarrow> int \<Rightarrow> nat \<Rightarrow> 'a heap \<Rightarrow> 'a heap) \<Rightarrow> int \<Rightarrow> nat \<Rightarrow> int \<Rightarrow> nat \<times> 'a heap \<Rightarrow> nat \<times> 'a heap" where
  "blur_rows body width 0 y s = s"
| "blur_rows body width (Suc n) y s = blur_rows body width n (y + 1) (blur_cols body y (nat width) 0 s)"

definition gaussian_blur_x ::
  "rounding \<Rightarrow> ('a \<Rightarrow> float) \<Rightarrow> (float \<Rightarrow> 'a) \<Rightarrow> float list \<Rightarrow> int \<Rightarrow> int \<Rightarrow> int \<Rightarrow> int \<Rightarrow> int \<Rightarrow>
   nat \<Rightarrow> nat \<Rightarrow> 'a heap \<Rightarrow> 'a heap" where
  "gaussian_blur_x rnd ld st gaussian half_size start_line width height frame_height rect dst mem =
     snd (blur_rows (gaussian_blur_x_pixel rnd ld st gaussian half_size width rect)
            width (nat height) start_line (dst + nat (start_line * width * 4), mem))"

definition gaussian_blur_y ::
  "rounding \<Rightarrow> ('a \<Rightarrow> float) \<Rightarrow> (float \<Rightarrow> 'a) \<Rightarrow> float list \<Rightarrow> int \<Rightarrow> int \<Rightarrow> int \<Rightarrow> int \<Rightarrow> int \<Rightarrow>
   nat \<Rightarrow> nat \<Rightarrow> 'a heap \<Rightarrow> 'a heap" where
  "gaussian_blur_y rnd ld st gaussian half_size start_line width height frame_height rect dst mem =
     snd (blur_rows (gaussian_blur_y_pixel rnd ld st gaussian half_size width frame_height rect)
            width (nat height) start_line (dst + nat (start_line * width * 4), mem))"

text \<open>The two instances of the template: \<open>T = float\<close> and \<open>T = uchar\<close>.\<close>

definition store_float :: "float \<Rightarrow> float" where
  "store_float v = v"

definition store_uchar :: "rounding \<Rightarrow> float \<Rightarrow> uchar" where
  "store_uchar rnd v = uchar_of_float (fadd rnd v (Fin (1 / 2)))"

text \<open>The value with the sign of a zero dropped.\<close>

definition unsigned_zero :: "float \<Rightarrow> float" where
  "unsigned_zero u = (if u = NegZero then Fin 0 else u)"

text \<open>The numbers a byte channel takes on its way through a pass whose kernel is the single
  weight 1: the integers 1 to 255 and the same plus one half, and the weight.\<close>

definition byte_path_numbers :: "real set" where
  "byte_path_numbers = {1} \<union> real ` {1..255} \<union> (\<lambda>n. real n + 1 / 2) ` {0..255}"

section \<open>Text effect: word wrapping\<close>

type_synonym float2 = "float \<times> float"

text \<open>
  \<open>str_ptr\<close> points into the text of the strip: the model keeps the string that starts
  there, and \<open>str_ptr[0]\<close> is its first byte, or the terminating zero when it is empty.
  The field \<open>index\<close> is \<open>char_index\<close> here and the field \<open>width\<close> of a line is
  \<open>line_width\<close>.
\<close>

record CharInfo =
  char_index :: int
  str_ptr :: string
  byte_length :: int
  position :: float2
  advance_x :: int
  do_wrap :: bool

record LineInfo =
  characters :: "CharInfo list"
  line_width :: int

record TextVarsRuntime =
  lines :: "LineInfo list"
  line_height :: int

record TextVars =
  wrap_width :: float

definition first_byte :: "CharInfo \<Rightarrow> char" where
  "first_byte c = (case str_ptr c of [] \<Rightarrow> CHR 0x00 | b # bs \<Rightarrow> b)"

definition INT_MAX :: int where
  "INT_MAX = 2147483647"

definition wrap_width_get :: "rounding \<Rightarrow> TextVars \<Rightarrow> int \<times> int \<Rightarrow> int" where
  "wrap_width_get rnd data image_size =
     (if feq (wrap_width data) (Fin 0) then INT_MAX
      else int_of_float (fmul rnd (wrap_width data) (float_of_int rnd (fst image_size))))"

text \<open>
  The first pass of apply_word_wrapping, one character: \<open>i\<close> is the index of the character
  in the vector, \<open>last_space\<close> the index of the element the pointer of that name points
  to. \<open>char_position -= last_space->position + last_space->advance_x\<close> adds the advance
  to both components before it subtracts.
\<close>

definition wrap_mark_step ::
  "rounding \<Rightarrow> int \<Rightarrow> nat \<Rightarrow> CharInfo list \<times> float2 \<times> nat option \<Rightarrow> CharInfo list \<times> float2 \<times> nat option" where
  "wrap_mark_step rnd wrap_w i s =
     (let (chars, char_position, last_space) = s;
          (chars, last_space) =
             (if first_byte (chars ! i) = CHR '' ''
              then (chars[i := (chars ! i)\<lparr>position := char_position\<rparr>], Some i)
              else (chars, last_space));
          (char_position, last_space) =
             (if first_byte (chars ! i) = CHR 0x0A
              then ((Fin 0, snd char_position), None)
              else (char_position, last_space));
          (chars, char_position) =
             (case last_space of
                Some l \<Rightarrow>
                  if first_byte (chars ! i) \<noteq> CHR 0x00 \<and> flt (float_of_int rnd wrap_w) (fst char_position)
                  then (chars[l := (chars ! l)\<lparr>do_wrap := True\<rparr>],
                        (fsub rnd (fst char_position)
                           (fadd rnd (fst (position (chars ! l))) (float_of_int rnd (advance_x (chars ! l)))),
                         fsub rnd (snd char_position)
                           (fadd rnd (snd (position (chars ! l))) (float_of_int rnd (advance_x (chars ! l))))))
                  else (chars, char_position)
              | None \<Rightarrow> (chars, char_position));
          char_position = (fadd rnd (fst char_position) (float_of_int rnd (advance_x (chars ! i))),
                           snd char_position)
      in (chars, char_position, last_space))"

text \<open>The second pass, one character: it goes to the last line, whose width becomes the
  position of the character; a wrap mark or a newline opens a new line.\<close>

definition empty_line :: LineInfo where
  "empty_line = \<lparr>characters = [], line_width = 0\<rparr>"

definition fill_line_step ::
  "rounding \<Rightarrow> int \<Rightarrow> nat \<Rightarrow> CharInfo list \<times> LineInfo list \<times> float2 \<Rightarrow> CharInfo list \<times> LineInfo list \<times> float2" where
  "fill_line_step rnd line_h i s =
     (let (chars, ls, char_position) = s;
          chars = chars[i := (chars ! i)\<lparr>position := char_position\<rparr>];
          ls = butlast ls @ [(last ls)\<lparr>characters := characters (last ls) @ [chars ! i],
                                        line_width := int_of_float (fst char_position)\<rparr>];
          char_position = (fadd rnd (fst char_position) (float_of_int rnd (advance_x (chars ! i))),
                           snd char_position)
      in if do_wrap (chars ! i) \<or> first_byte (chars ! i) = CHR 0x0A
         then (chars, ls @ [empty_line],
               (Fin 0, fsub rnd (snd char_position) (float_of_int rnd line_h)))
         else (chars, ls, char_position))"

text \<open>apply_word_wrapping changes the vector of characters in place and appends the lines to
  the runtime data: the model returns both.\<close>

definition apply_word_wrapping ::
  "rounding \<Rightarrow> TextVars \<Rightarrow> TextVarsRuntime \<Rightarrow> int \<times> int \<Rightarrow> CharInfo list \<Rightarrow>
   TextVarsRuntime \<times> CharInfo list" where
  "apply_word_wrapping rnd data runtime image_size chars =
     (let wrap_w = wrap_width_get rnd data image_size;
          (chars, char_position, last_space) =
             fold (wrap_mark_step rnd wrap_w) [0..<length chars] (chars, (Fin 0, Fin 0), None);
          (chars, ls, char_position) =
             fold (fill_line_step rnd (line_height runtime)) [0..<length chars]
               (chars, lines runtime @ [empty_line], (Fin 0, Fin 0))
      in (runtime\<lparr>lines := ls\<rparr>, chars))"

text \<open>A character entry with its position set to the origin: two entries that agree on it
  differ by their position at most.\<close>

definition without_position :: "CharInfo \<Rightarrow> CharInfo" where
  "without_position c = c\<lparr>position := (Fin 0, Fin 0)\<rparr>"

text \<open>The character entries of a text as build_character_info creates them, for concrete
  evaluations: every character advances by 10, the terminator by 7.\<close>

definition demo_char :: "nat \<Rightarrow> string \<Rightarrow> CharInfo" where
  "demo_char i s =
     \<lparr>char_index = int i, str_ptr = s, byte_length = 1, position = (Fin 0, Fin 0),
      advance_x = (if s = [] then 7 else 10), do_wrap = False\<rparr>"

definition demo_characters :: "CharInfo list" where
  "demo_characters = [demo_char 0 ''a b'', demo_char 1 '' b'', demo_char 2 ''b'', demo_char 3 []]"

section \<open>Glow effect: the blur filter\<close>













section \<open>Text outline: jump flooding\<close>

text \<open>
  A \<open>JFACoord\<close> is the pair of its fields \<open>x\<close> and \<open>y\<close>, an \<open>int2\<close> the pair of its
  components, a \<open>uchar4\<close> the tuple of its components \<open>x\<close>, \<open>y\<close>, \<open>z\<close>, \<open>w\<close>.
  \<open>math::distance_squared\<close> is the parameter \<open>distance_squared\<close> of the pass, and the value
  of \<open>power_of_2_max_i (outline_width)\<close> the parameter \<open>p\<close> of the flooding.
\<close>

type_synonym JFACoord = "16 word \<times> 16 word"

type_synonym int2 = "int \<times> int"


definition JFA_INVALID :: "16 word" where
  "JFA_INVALID = 0xFFFF"

text \<open>The body of the loop over \<open>dx\<close>, on the row \<open>yy\<close> of the input: the state is
  \<open>closest_texel\<close> and \<open>minimum_squared_distance\<close>.\<close>

definition jfa_sample ::
  "rounding \<Rightarrow> (float2 \<Rightarrow> float2 \<Rightarrow> float) \<Rightarrow> JFACoord list \<Rightarrow> int2 \<Rightarrow> int \<Rightarrow> int \<Rightarrow> int \<Rightarrow> int \<Rightarrow>
   JFACoord \<times> float \<Rightarrow> JFACoord \<times> float" where
  "jfa_sample rnd distance_squared input size_xy x y yy dx =
     (\<lambda>(closest_texel, minimum_squared_distance).
        (let xx = x + dx
         in if xx < 0 \<or> fst size_xy \<le> xx then (closest_texel, minimum_squared_distance)
            else let val = input ! nat (yy * fst size_xy + xx)
                 in if fst val = JFA_INVALID then (closest_texel, minimum_squared_distance)
                    else let squared_distance =
                               distance_squared
                                 (float_of_int rnd (uint (fst val)), float_of_int rnd (uint (snd val)))
                                 (float_of_int rnd x, float_of_int rnd y)
                         in if flt squared_distance minimum_squared_distance
                            then (val, squared_distance)
                            else (closest_texel, minimum_squared_distance)))"

text \<open>The values of \<open>dy\<close> and of \<open>dx\<close> in
  \<open>for (int dy = -step_size; dy <= step_size; dy += step_size)\<close>: with step size 0 the
  loop does not end.\<close>

definition step_offsets :: "int \<Rightarrow> int list option" where
  "step_offsets step_size =
     (if step_size = 0 then None
      else if step_size < 0 then Some []
      else Some [- step_size, 0, step_size])"

definition jfa_pixel ::
  "rounding \<Rightarrow> (float2 \<Rightarrow> float2 \<Rightarrow> float) \<Rightarrow> JFACoord list \<Rightarrow> int2 \<Rightarrow> int list \<Rightarrow> int \<Rightarrow> int \<Rightarrow>
   JFACoord" where
  "jfa_pixel rnd distance_squared input size_xy offsets x y =
     fst (fold (\<lambda>dy state.
                  (let yy = y + dy
                   in if yy < 0 \<or> snd size_xy \<le> yy then state
                      else fold (jfa_sample rnd distance_squared input size_xy x y yy) offsets state))
            offsets ((JFA_INVALID, JFA_INVALID), Fin FLT_MAX))"

text \<open>jump_flooding_pass: \<open>x_range\<close> and \<open>y_range\<close> are the lists of the indices of the two
  ranges. The result is \<open>None\<close> when the pass does not return.\<close>

definition jump_flooding_pass ::
  "rounding \<Rightarrow> (float2 \<Rightarrow> float2 \<Rightarrow> float) \<Rightarrow> int2 \<Rightarrow> int list \<Rightarrow> int list \<Rightarrow>
   JFACoord list \<Rightarrow> JFACoord list \<Rightarrow> int \<Rightarrow> JFACoord list option" where
  "jump_flooding_pass rnd distance_squared size_xy x_range y_range input output step_size =
     (case step_offsets step_size of
        None \<Rightarrow> if x_range = [] \<or> y_range = [] then Some output else None
      | Some offsets \<Rightarrow>
          Some (fold (\<lambda>y output.
                        fold (\<lambda>x output.
                                output[nat (y * fst size_xy + x) :=
                                         jfa_pixel rnd distance_squared input size_xy offsets x y])
                          x_range output)
                  y_range output))"


text \<open>Integer division of C++, which truncates towards zero.\<close>

definition cdiv :: "int \<Rightarrow> int \<Rightarrow> int" where
  "cdiv a b = sgn a * sgn b * (\<bar>a\<bar> div \<bar>b\<bar>)"

text \<open>The loop \<open>while (step_size != 0)\<close> of draw_text_outline: \<open>pass\<close> is jump_flooding_pass
  with the size and the two ranges of the outline rectangle, and the two buffers change
  places after every pass.\<close>

function flood_loop ::
  "('b \<Rightarrow> 'b \<Rightarrow> int \<Rightarrow> 'b option) \<Rightarrow> int \<Rightarrow> 'b \<Rightarrow> 'b \<Rightarrow> 'b option" where
  "flood_loop pass step_size result_to_flood result_after_flooding =
     (if step_size = 0 then Some result_to_flood
      else case pass result_to_flood result_after_flooding step_size of
             None \<Rightarrow> None
           | Some flooded \<Rightarrow> flood_loop pass (cdiv step_size 2) flooded result_to_flood)"
  by pat_completeness auto
termination
  by (relation "measure (\<lambda>(pass, step_size, a, b). nat \<bar>step_size\<bar>)")
     (auto simp: cdiv_def sgn_if)

text \<open>The jump flooding of draw_text_outline: a first pass with step size 1 from \<open>boundary\<close>
  into \<open>initial_flooded_result\<close>, then the loop.\<close>

definition jfa_flood ::
  "('b \<Rightarrow> 'b \<Rightarrow> int \<Rightarrow> 'b option) \<Rightarrow> int \<Rightarrow> 'b \<Rightarrow> 'b \<Rightarrow> 'b \<Rightarrow> 'b option" where
  "jfa_flood pass p boundary initial_flooded_result intermediate_result =
     (case pass boundary initial_flooded_result 1 of
        None \<Rightarrow> None
      | Some flooded \<Rightarrow> flood_loop pass (cdiv p 2) flooded intermediate_result)"


text \<open>The step sizes of the passes, in the order draw_text_outline runs them: the flooding
  with a pass that appends its step size to the buffer it reads.\<close>

definition jfa_step_sizes :: "int \<Rightarrow> int list option" where
  "jfa_step_sizes p = jfa_flood (\<lambda>input output step_size. Some (input @ [step_size])) p [] [] []"

text \<open>The exact squared distance between two points with finite coordinates, for concrete
  evaluations.\<close>

definition exact_distance_squared :: "float2 \<Rightarrow> float2 \<Rightarrow> float" where
  "exact_distance_squared a b =
     Fin ((fval (fst a) - fval (fst b))\<^sup>2 + (fval (snd a) - fval (snd b))\<^sup>2)"

text \<open>The sample positions of a pixel in words: the values the input holds at the nine
  positions \<open>(x + dx, y + dy)\<close>, \<open>dx\<close> and \<open>dy\<close> among \<open>-step_size\<close>, 0 and \<open>step_size\<close>, that lie
  inside the image and hold a valid coordinate, row by row.\<close>

definition jfa_candidates :: "JFACoord list \<Rightarrow> int2 \<Rightarrow> int \<Rightarrow> int \<Rightarrow> int \<Rightarrow> JFACoord list" where
  "jfa_candidates input size_xy step_size x y =
     filter (\<lambda>val. fst val \<noteq> JFA_INVALID)
       (map (\<lambda>(xx, yy). input ! nat (yy * fst size_xy + xx))
          (filter (\<lambda>(xx, yy). 0 \<le> xx \<and> xx < fst size_xy \<and> 0 \<le> yy \<and> yy < snd size_xy)
             (concat (map (\<lambda>dy. map (\<lambda>dx. (x + dx, y + dy)) [- step_size, 0, step_size])
                        [- step_size, 0, step_size]))))"

definition squared_distance_int :: "JFACoord \<Rightarrow> int \<Rightarrow> int \<Rightarrow> int" where
  "squared_distance_int val x y = (uint (fst val) - x)\<^sup>2 + (uint (snd val) - y)\<^sup>2"

text \<open>The step sizes of the loop, and a sequence of passes with given step sizes.\<close>

function flood_steps :: "int \<Rightarrow> int list" where
  "flood_steps step_size = (if step_size = 0 then [] else step_size # flood_steps (cdiv step_size 2))"
  by pat_completeness auto
termination
  by (relation "measure (\<lambda>step_size. nat \<bar>step_size\<bar>)") (auto simp: cdiv_def sgn_if)

declare flood_steps.simps [simp del]

declare flood_loop.simps [simp del]

primrec run_passes :: "('b \<Rightarrow> 'b \<Rightarrow> int \<Rightarrow> 'b option) \<Rightarrow> int list \<Rightarrow> 'b \<Rightarrow> 'b \<Rightarrow> 'b option" where
  "run_passes pass [] result_to_flood result_after_flooding = Some result_to_flood"
| "run_passes pass (step_size # steps) result_to_flood result_after_flooding =
     (case pass result_to_flood result_after_flooding step_size of
        None \<Rightarrow> None
      | Some flooded \<Rightarrow> run_passes pass steps flooded result_to_flood)"

text \<open>What a sample that lies in the image and holds a valid coordinate does to the state
  of the two sampling loops.\<close>

definition jfa_closer ::
  "rounding \<Rightarrow> (float2 \<Rightarrow> float2 \<Rightarrow> float) \<Rightarrow> int \<Rightarrow> int \<Rightarrow> JFACoord \<Rightarrow> JFACoord \<times> float \<Rightarrow>
   JFACoord \<times> float" where
  "jfa_closer rnd distance_squared x y val =
     (\<lambda>(closest_texel, minimum_squared_distance).
        (let squared_distance =
               distance_squared
                 (float_of_int rnd (uint (fst val)), float_of_int rnd (uint (snd val)))
                 (float_of_int rnd x, float_of_int rnd y)
         in if flt squared_distance minimum_squared_distance
            then (val, squared_distance)
            else (closest_texel, minimum_squared_distance)))"

(*DEFS_END*)

section \<open>Theorems\<close>

subsection \<open>Effect factory\<close>

lemma switch_on_None:
  "(\<forall>l\<in>set labels. K l \<noteq> v) \<Longrightarrow> switch_on K labels v = None"
  by (simp add: switch_on_def find_None_iff)

text \<open>
  Claim C4. For every effect-type identifier that equals none of the case labels of
  get_sequence_effect_impl, the returned handle has a null whole-image executor
  (\<open>execute\<close>) and a null slice executor (\<open>execute_slice\<close>), and
  SEQ_effect_get_num_inputs returns 0 for it. No error is raised: both functions are total.
\<close>

theorem unregistered_effect_type_handle:
  assumes "\<forall>l\<in>set effect_impl_labels. K l \<noteq> seq_type"
  shows "execute (get_sequence_effect_impl K seq_type) = None
       \<and> execute_slice (get_sequence_effect_impl K seq_type) = None
       \<and> SEQ_effect_get_num_inputs K seq_type = 0"
  using switch_on_None [OF assms]
  by (simp add: SEQ_effect_get_num_inputs_def get_sequence_effect_impl_def default_handle_def)

theorem unregistered_effect_type_handle_witness:
  "execute (get_sequence_effect_impl dna_seq_type 24) = None
   \<and> execute_slice (get_sequence_effect_impl dna_seq_type 24) = None
   \<and> SEQ_effect_get_num_inputs dna_seq_type 24 = 0"
proof -
  have h: "\<forall>l\<in>set effect_impl_labels. dna_seq_type l \<noteq> 24"
    by (simp add: effect_impl_labels_def)
  show ?thesis using unregistered_effect_type_handle [OF h] .
qed

subsection \<open>Output allocation\<close>

lemma convert_if_float_present:
  assumes "to_float_contract f"
    and "byte_buffer (mem a) \<noteq> None \<or> float_buffer (mem a) \<noteq> None"
  shows "float_buffer (convert_if (\<lambda>b. float_buffer b = None) f (Some a) mem a) \<noteq> None"
  using assms by (auto simp: convert_if_def to_float_contract_def)

lemma convert_if_float_kept:
  assumes "to_float_contract f" and "float_buffer (mem a) \<noteq> None"
  shows "float_buffer (convert_if (\<lambda>b. float_buffer b = None) f p mem a) \<noteq> None"
  using assms by (auto simp: convert_if_def to_float_contract_def split: option.splits)

lemma convert_if_float_some_buffer:
  assumes "to_float_contract f"
    and "byte_buffer (mem a) \<noteq> None \<or> float_buffer (mem a) \<noteq> None"
  shows "byte_buffer (convert_if (\<lambda>b. float_buffer b = None) f p mem a) \<noteq> None
        \<or> float_buffer (convert_if (\<lambda>b. float_buffer b = None) f p mem a) \<noteq> None"
  using assms by (auto simp: convert_if_def to_float_contract_def split: option.splits)

lemma convert_if_byte_unchanged:
  assumes "\<forall>a. p = Some a \<longrightarrow> byte_buffer (mem a) \<noteq> None"
  shows "convert_if (\<lambda>b. byte_buffer b = None) f p mem = mem"
  using assms by (auto simp: convert_if_def split: option.splits)

lemma prepare_unfold:
  assumes R: "prepare_effect_imbufs alloc to_seq rff context mem ibuf1 ibuf2 u = (out, mem')"
  obtains out0 where
    "out0 = (if ibuf1 = None \<and> ibuf2 = None
             then alloc (rectx context) (recty context)
                    ({IB_rect} \<union> (if u then {IB_uninitialized_pixels} else {}))
             else if has_float mem ibuf1 \<or> has_float mem ibuf2
             then alloc (rectx context) (recty context)
                    ({IB_rectfloat} \<union> (if u then {IB_uninitialized_pixels} else {}))
             else alloc (rectx context) (recty context)
                    ({IB_rect} \<union> (if u then {IB_uninitialized_pixels} else {})))"
    and "float_buffer out = float_buffer out0" and "byte_buffer out = byte_buffer out0"
    and "mem' = (if float_buffer out0 \<noteq> None
                 then convert_if (\<lambda>b. float_buffer b = None) to_seq ibuf2
                        (convert_if (\<lambda>b. float_buffer b = None) to_seq ibuf1 mem)
                 else convert_if (\<lambda>b. byte_buffer b = None) rff ibuf2
                        (convert_if (\<lambda>b. byte_buffer b = None) rff ibuf1 mem))"
proof -
  define out0 where
    "out0 = (if ibuf1 = None \<and> ibuf2 = None
             then alloc (rectx context) (recty context)
                    ({IB_rect} \<union> (if u then {IB_uninitialized_pixels} else {}))
             else if has_float mem ibuf1 \<or> has_float mem ibuf2
             then alloc (rectx context) (recty context)
                    ({IB_rectfloat} \<union> (if u then {IB_uninitialized_pixels} else {}))
             else alloc (rectx context) (recty context)
                    ({IB_rect} \<union> (if u then {IB_uninitialized_pixels} else {})))"
  note R' = R [unfolded prepare_effect_imbufs_def Let_def, folded out0_def]
  have "float_buffer out = float_buffer out0 \<and> byte_buffer out = byte_buffer out0
      \<and> mem' = (if float_buffer out0 \<noteq> None
                 then convert_if (\<lambda>b. float_buffer b = None) to_seq ibuf2
                        (convert_if (\<lambda>b. float_buffer b = None) to_seq ibuf1 mem)
                 else convert_if (\<lambda>b. byte_buffer b = None) rff ibuf2
                        (convert_if (\<lambda>b. byte_buffer b = None) rff ibuf1 mem))"
    using R' by (cases "float_buffer out0 = None"; cases ibuf1; cases "ibuf1 = ibuf2"; auto)
  with that [OF out0_def] show thesis by blast
qed

lemma prepare_out_format:
  assumes A: "alloc_contract alloc"
    and R: "prepare_effect_imbufs alloc to_seq rff context mem ibuf1 ibuf2 u = (out, mem')"
  shows "(float_buffer out \<noteq> None) = (has_float mem ibuf1 \<or> has_float mem ibuf2)"
    and "(byte_buffer out \<noteq> None) = (\<not> (has_float mem ibuf1 \<or> has_float mem ibuf2))"
proof -
  obtain out0 where o: "out0 = (if ibuf1 = None \<and> ibuf2 = None
             then alloc (rectx context) (recty context)
                    ({IB_rect} \<union> (if u then {IB_uninitialized_pixels} else {}))
             else if has_float mem ibuf1 \<or> has_float mem ibuf2
             then alloc (rectx context) (recty context)
                    ({IB_rectfloat} \<union> (if u then {IB_uninitialized_pixels} else {}))
             else alloc (rectx context) (recty context)
                    ({IB_rect} \<union> (if u then {IB_uninitialized_pixels} else {})))"
    and f: "float_buffer out = float_buffer out0" and b: "byte_buffer out = byte_buffer out0"
    using prepare_unfold [OF R] by metis
  have nn: "ibuf1 = None \<and> ibuf2 = None \<Longrightarrow> \<not> (has_float mem ibuf1 \<or> has_float mem ibuf2)"
    by (simp add: has_float_def)
  have "(float_buffer out0 \<noteq> None) = (has_float mem ibuf1 \<or> has_float mem ibuf2)"
    using A nn unfolding o alloc_contract_def by (simp split: if_splits)
  moreover have "(byte_buffer out0 \<noteq> None) = (\<not> (has_float mem ibuf1 \<or> has_float mem ibuf2))"
    using A nn unfolding o alloc_contract_def by (simp split: if_splits)
  ultimately show "(float_buffer out \<noteq> None) = (has_float mem ibuf1 \<or> has_float mem ibuf2)"
    and "(byte_buffer out \<noteq> None) = (\<not> (has_float mem ibuf1 \<or> has_float mem ibuf2))"
    using f b by simp_all
qed

lemma prepare_mem_float:
  assumes R: "prepare_effect_imbufs alloc to_seq rff context mem ibuf1 ibuf2 u = (out, mem')"
    and F: "float_buffer out \<noteq> None"
  shows "mem' = convert_if (\<lambda>b. float_buffer b = None) to_seq ibuf2
                  (convert_if (\<lambda>b. float_buffer b = None) to_seq ibuf1 mem)"
  using prepare_unfold [OF R] F by metis

lemma prepare_mem_byte:
  assumes R: "prepare_effect_imbufs alloc to_seq rff context mem ibuf1 ibuf2 u = (out, mem')"
    and F: "float_buffer out = None"
  shows "mem' = convert_if (\<lambda>b. byte_buffer b = None) rff ibuf2
                  (convert_if (\<lambda>b. byte_buffer b = None) rff ibuf1 mem)"
  using prepare_unfold [OF R] F by metis

text \<open>
  Claim C1. For every pair of optional input images (each one absent, or an image with a
  byte or a float pixel array), the output buffer that prepare_effect_imbufs allocates has
  float pixels if and only if at least one input has float pixels, and has byte pixels
  otherwise (in particular when both inputs are byte, and when both are absent). After the
  call every input present has pixels in the representation of the output: a byte input of
  a float output has been converted to float, and the inputs of a byte output were byte
  already and are left as they are.
\<close>

theorem prepare_effect_imbufs_format:
  assumes A: "alloc_contract alloc" and T: "to_float_contract to_seq"
    and I1: "input_ok mem ibuf1" and I2: "input_ok mem ibuf2"
    and R: "prepare_effect_imbufs alloc to_seq rff context mem ibuf1 ibuf2 u = (out, mem')"
  shows "(float_buffer out \<noteq> None) = (has_float mem ibuf1 \<or> has_float mem ibuf2)
       \<and> (byte_buffer out \<noteq> None) = (\<not> (has_float mem ibuf1 \<or> has_float mem ibuf2))
       \<and> (\<forall>a. ibuf1 = Some a \<or> ibuf2 = Some a \<longrightarrow>
             (if float_buffer out \<noteq> None then float_buffer (mem' a) \<noteq> None
              else byte_buffer (mem' a) \<noteq> None \<and> mem' a = mem a))"
proof (intro conjI allI impI)
  show fmt: "(float_buffer out \<noteq> None) = (has_float mem ibuf1 \<or> has_float mem ibuf2)"
    by (rule prepare_out_format(1) [OF A R])
  show "(byte_buffer out \<noteq> None) = (\<not> (has_float mem ibuf1 \<or> has_float mem ibuf2))"
    by (rule prepare_out_format(2) [OF A R])
  fix a assume a: "ibuf1 = Some a \<or> ibuf2 = Some a"
  have some: "byte_buffer (mem a) \<noteq> None \<or> float_buffer (mem a) \<noteq> None"
    using a I1 I2 by (auto simp: input_ok_def)
  show "if float_buffer out \<noteq> None then float_buffer (mem' a) \<noteq> None
        else byte_buffer (mem' a) \<noteq> None \<and> mem' a = mem a"
  proof (cases "float_buffer out \<noteq> None")
    case True
    let ?m1 = "convert_if (\<lambda>b. float_buffer b = None) to_seq ibuf1 mem"
    have m': "mem' = convert_if (\<lambda>b. float_buffer b = None) to_seq ibuf2 ?m1"
      by (rule prepare_mem_float [OF R True])
    have some1: "byte_buffer (?m1 a) \<noteq> None \<or> float_buffer (?m1 a) \<noteq> None"
      using T some by (rule convert_if_float_some_buffer)
    have "float_buffer (mem' a) \<noteq> None"
    proof (cases "ibuf2 = Some a")
      case True
      then show ?thesis
        unfolding m' using convert_if_float_present [where mem = ?m1 and a = a, OF T some1] by simp
    next
      case False
      with a have "ibuf1 = Some a" by simp
      then have "float_buffer (?m1 a) \<noteq> None"
        using convert_if_float_present [where mem = mem and a = a, OF T some] by simp
      then show ?thesis
        unfolding m' by (rule convert_if_float_kept [OF T])
    qed
    with True show ?thesis by simp
  next
    case False
    then have nf: "\<not> has_float mem ibuf1" "\<not> has_float mem ibuf2"
      using fmt by simp_all
    have b1: "\<forall>a. ibuf1 = Some a \<longrightarrow> byte_buffer (mem a) \<noteq> None"
      using nf(1) I1 by (auto simp: has_float_def input_ok_def)
    have b2: "\<forall>a. ibuf2 = Some a \<longrightarrow> byte_buffer (mem a) \<noteq> None"
      using nf(2) I2 by (auto simp: has_float_def input_ok_def)
    have "mem' = mem"
      using prepare_mem_byte [OF R] False
      by (simp add: convert_if_byte_unchanged [OF b1] convert_if_byte_unchanged [OF b2])
    moreover have "byte_buffer (mem a) \<noteq> None"
      using a b1 b2 by blast
    ultimately show ?thesis using False by simp
  qed
qed

theorem prepare_effect_imbufs_format_witness:
  "float_buffer (fst (prepare_effect_imbufs demo_alloc demo_to_seq demo_rect_from_float
      demo_context demo_mem (Some 0) (Some 1) True)) \<noteq> None
   \<and> byte_buffer (fst (prepare_effect_imbufs demo_alloc demo_to_seq demo_rect_from_float
      demo_context demo_mem (Some 0) (Some 1) True)) = None
   \<and> float_buffer (snd (prepare_effect_imbufs demo_alloc demo_to_seq demo_rect_from_float
      demo_context demo_mem (Some 0) (Some 1) True) 0) \<noteq> None
   \<and> float_buffer (snd (prepare_effect_imbufs demo_alloc demo_to_seq demo_rect_from_float
      demo_context demo_mem (Some 0) (Some 1) True) 1) \<noteq> None"
proof -
  obtain out mem' where R:
    "prepare_effect_imbufs demo_alloc demo_to_seq demo_rect_from_float
       demo_context demo_mem (Some 0) (Some 1) True = (out, mem')"
    by (cases "prepare_effect_imbufs demo_alloc demo_to_seq demo_rect_from_float
       demo_context demo_mem (Some 0) (Some 1) True") blast
  have A: "alloc_contract demo_alloc"
    by (simp add: alloc_contract_def demo_alloc_def)
  have T: "to_float_contract demo_to_seq"
    by (auto simp: to_float_contract_def demo_to_seq_def)
  have I1: "input_ok demo_mem (Some 0)" and I2: "input_ok demo_mem (Some 1)"
    by (simp_all add: input_ok_def demo_mem_def)
  have hf: "has_float demo_mem (Some 1)" "\<not> has_float demo_mem (Some 0)"
    by (simp_all add: has_float_def demo_mem_def)
  show ?thesis
    using prepare_effect_imbufs_format [OF A T I1 I2 R] hf
    unfolding R by simp
qed

subsection \<open>Pixel loops\<close>

lemma row_loop_add:
  "row_loop body (m + n) s = row_loop body n (row_loop body m s)"
proof (induction m arbitrary: s)
  case 0
  then show ?case by simp
next
  case (Suc m)
  obtain p1 p2 d mem where s: "s = (p1, p2, d, mem)" by (cases s) auto
  show ?case unfolding s using Suc.IH by simp
qed

lemma image_loop_flat:
  "image_loop body x y s = row_loop body (y * x) s"
proof (induction y arbitrary: s)
  case 0
  then show ?case by simp
next
  case (Suc y)
  have "row_loop body (Suc y * x) s = row_loop body (y * x) (row_loop body x s)"
    using row_loop_add [of body x "y * x" s] by simp
  with Suc.IH show ?case by simp
qed

lemma row_loop_frame:
  assumes "frame_body body" and "a \<notin> {d..<d + 4 * n}"
  shows "heap_of (row_loop body n (p1, p2, d, mem)) a = mem a"
  using assms(2)
proof (induction n arbitrary: p1 p2 d mem)
  case 0
  then show ?case by (simp add: heap_of_def)
next
  case (Suc n)
  have 1: "a \<notin> {d + 4..<d + 4 + 4 * n}" and 2: "a \<notin> {d..<d + 4}"
    using Suc.prems by auto
  have "heap_of (row_loop body (Suc n) (p1, p2, d, mem)) a = body p1 p2 d mem a"
    using Suc.IH [OF 1] by simp
  also have "\<dots> = mem a"
    using assms(1) 2 unfolding frame_body_def by blast
  finally show ?case .
qed

lemma row_loop_pointwise:
  assumes fr: "frame_body body"
    and pix: "\<And>p1 p2 d mem c. c \<in> C \<Longrightarrow> c < 4 \<Longrightarrow> {d..<d + 4} \<inter> {p1..<p1 + 4} = {} \<Longrightarrow>
                {d..<d + 4} \<inter> {p2..<p2 + 4} = {} \<Longrightarrow> R (mem (p1 + c)) (mem (p2 + c)) \<Longrightarrow>
                body p1 p2 d mem (d + c) = F (mem (p1 + c)) (mem (p2 + c))"
    and dis1: "{d..<d + 4 * n} \<inter> {p1..<p1 + 4 * n} = {}"
    and dis2: "{d..<d + 4 * n} \<inter> {p2..<p2 + 4 * n} = {}"
    and i: "i < 4 * n" "i mod 4 \<in> C"
    and val: "R (mem (p1 + i)) (mem (p2 + i))"
  shows "heap_of (row_loop body n (p1, p2, d, mem)) (d + i) = F (mem (p1 + i)) (mem (p2 + i))"
  using dis1 dis2 i val
proof (induction n arbitrary: p1 p2 d mem i)
  case 0
  then show ?case by simp
next
  case (Suc n)
  let ?m = "body p1 p2 d mem"
  have keep1: "?m (p1 + j) = mem (p1 + j)" if "j < 4 * Suc n" for j
  proof -
    have "p1 + j \<notin> {d..<d + 4}" using Suc.prems(1) that by (auto simp: disjoint_iff)
    then show ?thesis using fr unfolding frame_body_def by blast
  qed
  have keep2: "?m (p2 + j) = mem (p2 + j)" if "j < 4 * Suc n" for j
  proof -
    have "p2 + j \<notin> {d..<d + 4}" using Suc.prems(2) that by (auto simp: disjoint_iff)
    then show ?thesis using fr unfolding frame_body_def by blast
  qed
  show ?case
  proof (cases "i < 4")
    case True
    have nin: "d + i \<notin> {d + 4..<d + 4 + 4 * n}" using True by simp
    have "heap_of (row_loop body (Suc n) (p1, p2, d, mem)) (d + i) = ?m (d + i)"
      using row_loop_frame [OF fr nin] by simp
    also have "\<dots> = F (mem (p1 + i)) (mem (p2 + i))"
    proof (rule pix)
      show "i \<in> C" using Suc.prems(4) True by simp
      show "i < 4" by (rule True)
      show "{d..<d + 4} \<inter> {p1..<p1 + 4} = {}" using Suc.prems(1) by (auto simp: disjoint_iff)
      show "{d..<d + 4} \<inter> {p2..<p2 + 4} = {}" using Suc.prems(2) by (auto simp: disjoint_iff)
      show "R (mem (p1 + i)) (mem (p2 + i))" by (rule Suc.prems(5))
    qed
    finally show ?thesis .
  next
    case False
    define i' where "i' = i - 4"
    have i': "i = 4 + i'" "i' < 4 * n" "i' mod 4 \<in> C"
      using False Suc.prems(3,4) by (auto simp: i'_def le_mod_geq)
    have d1: "{d + 4..<d + 4 + 4 * n} \<inter> {p1 + 4..<p1 + 4 + 4 * n} = {}"
      using Suc.prems(1) by (auto simp: disjoint_iff)
    have d2: "{d + 4..<d + 4 + 4 * n} \<inter> {p2 + 4..<p2 + 4 + 4 * n} = {}"
      using Suc.prems(2) by (auto simp: disjoint_iff)
    have k1: "?m (p1 + 4 + i') = mem (p1 + i)"
      using keep1 [of i] Suc.prems(3) i'(1) by (simp add: add.assoc)
    have k2: "?m (p2 + 4 + i') = mem (p2 + i)"
      using keep2 [of i] Suc.prems(3) i'(1) by (simp add: add.assoc)
    have v: "R (?m (p1 + 4 + i')) (?m (p2 + 4 + i'))"
      using Suc.prems(5) k1 k2 by simp
    have "heap_of (row_loop body n (p1 + 4, p2 + 4, d + 4, ?m)) (d + 4 + i')
          = F (?m (p1 + 4 + i')) (?m (p2 + 4 + i'))"
      by (rule Suc.IH [OF d1 d2 i'(2,3) v])
    then show ?thesis using i'(1) k1 k2 by (simp add: add.assoc)
  qed
qed

lemma for_each_pixel_frame:
  assumes "frame_body body" and "a \<notin> {d..<d + 4 * (nat y * nat x)}"
  shows "for_each_pixel body x y p1 p2 d mem a = mem a"
  unfolding for_each_pixel_def image_loop_flat by (rule row_loop_frame [OF assms])

lemma for_each_pixel_pointwise:
  assumes "frame_body body"
    and "\<And>p1 p2 d mem c. c \<in> C \<Longrightarrow> c < 4 \<Longrightarrow> {d..<d + 4} \<inter> {p1..<p1 + 4} = {} \<Longrightarrow>
                {d..<d + 4} \<inter> {p2..<p2 + 4} = {} \<Longrightarrow> R (mem (p1 + c)) (mem (p2 + c)) \<Longrightarrow>
                body p1 p2 d mem (d + c) = F (mem (p1 + c)) (mem (p2 + c))"
    and "{d..<d + 4 * (nat y * nat x)} \<inter> {p1..<p1 + 4 * (nat y * nat x)} = {}"
    and "{d..<d + 4 * (nat y * nat x)} \<inter> {p2..<p2 + 4 * (nat y * nat x)} = {}"
    and "i < 4 * (nat y * nat x)" "i mod 4 \<in> C"
    and "R (mem (p1 + i)) (mem (p2 + i))"
  shows "for_each_pixel body x y p1 p2 d mem (d + i) = F (mem (p1 + i)) (mem (p2 + i))"
  unfolding for_each_pixel_def image_loop_flat
  by (rule row_loop_pointwise [where C = C and R = R, OF assms])

lemma lt4_cases: "c < (4::nat) \<Longrightarrow> c = 0 \<or> c = 1 \<or> c = 2 \<or> c = 3"
  by arith

lemma pixel_assign4_frame:
  assumes "a \<notin> {d..<d + 4}"
  shows "pixel_assign4 e d mem a = mem a"
proof -
  have "a \<noteq> d" "a \<noteq> d + 1" "a \<noteq> d + 2" "a \<noteq> d + 3" using assms by auto
  then show ?thesis by (simp add: pixel_assign4_def Let_def)
qed

text \<open>A right-hand side that reads nothing of the destination pixel.\<close>

lemma pixel_assign4_channel:
  assumes c: "c < 4"
    and indep: "\<And>m m'. (\<forall>a. a \<notin> {d..<d + 4} \<longrightarrow> m a = m' a) \<Longrightarrow> e c m = e c m'"
  shows "pixel_assign4 e d mem (d + c) = e c mem"
proof -
  define m0 where "m0 = mem(d := e 0 mem)"
  define m1 where "m1 = m0(d + 1 := e 1 m0)"
  define m2 where "m2 = m1(d + 2 := e 2 m1)"
  define m3 where "m3 = m2(d + 3 := e 3 m2)"
  have r: "pixel_assign4 e d mem = m3"
    by (simp add: pixel_assign4_def Let_def m0_def m1_def m2_def m3_def)
  have e0: "e c m0 = e c mem" by (rule indep) (simp add: m0_def)
  have e1: "e c m1 = e c mem" by (rule indep) (simp add: m0_def m1_def)
  have e2: "e c m2 = e c mem" by (rule indep) (simp add: m0_def m1_def m2_def)
  from lt4_cases [OF c] show ?thesis
  proof (elim disjE)
    assume "c = 0" then show ?thesis unfolding r by (simp add: m3_def m2_def m1_def m0_def)
  next
    assume "c = 1" then show ?thesis unfolding r using e0 by (simp add: m3_def m2_def m1_def)
  next
    assume "c = 2" then show ?thesis unfolding r using e1 by (simp add: m3_def m2_def)
  next
    assume "c = 3" then show ?thesis unfolding r using e2 by (simp add: m3_def)
  qed
qed

lemma frame_cross_byte_pixel: "frame_body (cross_byte_pixel tf tmf)"
  by (simp add: frame_body_def cross_byte_pixel_def pixel_assign4_frame)

lemma frame_cross_float_pixel: "frame_body (cross_float_pixel rnd fac mfac)"
  by (simp add: frame_body_def cross_float_pixel_def pixel_assign4_frame)

lemma cross_byte_pixel_channel:
  assumes "c < 4" "{d..<d + 4} \<inter> {p1..<p1 + 4} = {}" "{d..<d + 4} \<inter> {p2..<p2 + 4} = {}"
  shows "cross_byte_pixel tf tmf p1 p2 d mem (d + c)
         = word_of_int ((tmf * uint (mem (p1 + c)) + tf * uint (mem (p2 + c))) div 2 ^ 8)"
proof -
  have n1: "p1 + c \<notin> {d..<d + 4}" using assms by (auto simp: disjoint_iff)
  have n2: "p2 + c \<notin> {d..<d + 4}" using assms by (auto simp: disjoint_iff)
  show ?thesis
    unfolding cross_byte_pixel_def
    by (rule trans [OF pixel_assign4_channel [OF assms(1)]]) (use n1 n2 in simp_all)
qed

lemma cross_float_pixel_channel:
  assumes "c < 4" "{d..<d + 4} \<inter> {p1..<p1 + 4} = {}" "{d..<d + 4} \<inter> {p2..<p2 + 4} = {}"
  shows "cross_float_pixel rnd fac mfac p1 p2 d mem (d + c)
         = fadd rnd (fmul rnd mfac (mem (p1 + c))) (fmul rnd fac (mem (p2 + c)))"
proof -
  have n1: "p1 + c \<notin> {d..<d + 4}" using assms by (auto simp: disjoint_iff)
  have n2: "p2 + c \<notin> {d..<d + 4}" using assms by (auto simp: disjoint_iff)
  show ?thesis
    unfolding cross_float_pixel_def
    by (rule trans [OF pixel_assign4_channel [OF assms(1)]]) (use n1 n2 in simp_all)
qed

lemma fmul_one: "representable rnd a \<Longrightarrow> fmul rnd (Fin 1) a = a"
  by (cases a) (auto simp: fmul_def representable_def fzero_def is_zero_def)

lemma fmul_zero: "is_fin b \<Longrightarrow> fmul rnd (Fin 0) b = fzero (is_neg b)"
  by (cases b) (auto simp: fmul_def fzero_def is_zero_def)

lemma fadd_zero_right:
  "representable rnd a \<Longrightarrow> a \<noteq> NegZero \<Longrightarrow> fadd rnd a (fzero s) = a"
  by (cases a) (auto simp: fadd_def representable_def fzero_def)

lemma fadd_zero_left:
  "representable rnd b \<Longrightarrow> b \<noteq> NegZero \<Longrightarrow> fadd rnd (fzero s) b = b"
  by (cases b) (auto simp: fadd_def representable_def fzero_def)

lemma fsub_one_zero: "rnd 1 = Fin 1 \<Longrightarrow> fsub rnd (Fin 1) (Fin 0) = Fin 1"
  by (simp add: fsub_def fadd_def)

lemma fsub_one_one: "fsub rnd (Fin 1) (Fin 1) = Fin 0"
  by (simp add: fsub_def fadd_def fzero_def)

lemma temp_fac_zero: "int_of_float (fmul rnd (Fin 256) (Fin 0)) = 0"
  by (simp add: fmul_def fzero_def trunc_real_def)

lemma temp_fac_one: "rnd 256 = Fin 256 \<Longrightarrow> int_of_float (fmul rnd (Fin 256) (Fin 1)) = 256"
  by (simp add: fmul_def trunc_real_def)

subsection \<open>Cross effect at the end points\<close>

lemma cross_byte_at_zero:
  assumes "{out..<out + 4 * (nat y * nat x)} \<inter> {rect1..<rect1 + 4 * (nat y * nat x)} = {}"
    and "{out..<out + 4 * (nat y * nat x)} \<inter> {rect2..<rect2 + 4 * (nat y * nat x)} = {}"
    and "i < 4 * (nat y * nat x)"
  shows "do_cross_effect_byte rnd (Fin 0) x y rect1 rect2 out mem (out + i) = mem (rect1 + i)"
proof -
  have "for_each_pixel (cross_byte_pixel 0 256) x y rect1 rect2 out mem (out + i)
        = (\<lambda>a b. a) (mem (rect1 + i)) (mem (rect2 + i))"
  proof (rule for_each_pixel_pointwise [where C = UNIV and R = "\<lambda>a b. True"])
    show "frame_body (cross_byte_pixel 0 256)" by (rule frame_cross_byte_pixel)
  next
    fix p1 p2 d :: nat and m :: "uchar heap" and c :: nat
    assume "c < 4" "{d..<d + 4} \<inter> {p1..<p1 + 4} = {}" "{d..<d + 4} \<inter> {p2..<p2 + 4} = {}"
    then show "cross_byte_pixel 0 256 p1 p2 d m (d + c) = m (p1 + c)"
      by (simp add: cross_byte_pixel_channel)
  qed (use assms in simp_all)
  then show ?thesis
    by (simp add: do_cross_effect_byte_def temp_fac_zero)
qed

lemma cross_byte_at_one:
  assumes "rnd 256 = Fin 256"
    and "{out..<out + 4 * (nat y * nat x)} \<inter> {rect1..<rect1 + 4 * (nat y * nat x)} = {}"
    and "{out..<out + 4 * (nat y * nat x)} \<inter> {rect2..<rect2 + 4 * (nat y * nat x)} = {}"
    and "i < 4 * (nat y * nat x)"
  shows "do_cross_effect_byte rnd (Fin 1) x y rect1 rect2 out mem (out + i) = mem (rect2 + i)"
proof -
  have "for_each_pixel (cross_byte_pixel 256 0) x y rect1 rect2 out mem (out + i)
        = (\<lambda>a b. b) (mem (rect1 + i)) (mem (rect2 + i))"
  proof (rule for_each_pixel_pointwise [where C = UNIV and R = "\<lambda>a b. True"])
    show "frame_body (cross_byte_pixel 256 0)" by (rule frame_cross_byte_pixel)
  next
    fix p1 p2 d :: nat and m :: "uchar heap" and c :: nat
    assume "c < 4" "{d..<d + 4} \<inter> {p1..<p1 + 4} = {}" "{d..<d + 4} \<inter> {p2..<p2 + 4} = {}"
    then show "cross_byte_pixel 256 0 p1 p2 d m (d + c) = m (p2 + c)"
      by (simp add: cross_byte_pixel_channel)
  qed (use assms in simp_all)
  then show ?thesis
    using assms(1) by (simp add: do_cross_effect_byte_def temp_fac_one)
qed

lemma cross_float_at_zero:
  assumes "rnd 1 = Fin 1"
    and "{out..<out + 4 * (nat y * nat x)} \<inter> {rect1..<rect1 + 4 * (nat y * nat x)} = {}"
    and "{out..<out + 4 * (nat y * nat x)} \<inter> {rect2..<rect2 + 4 * (nat y * nat x)} = {}"
    and "i < 4 * (nat y * nat x)"
    and "representable rnd (mem (rect1 + i))" "mem (rect1 + i) \<noteq> NegZero"
    and "is_fin (mem (rect2 + i))"
  shows "do_cross_effect_float rnd (Fin 0) x y rect1 rect2 out mem (out + i) = mem (rect1 + i)"
proof -
  have "for_each_pixel (cross_float_pixel rnd (Fin 0) (Fin 1)) x y rect1 rect2 out mem (out + i)
        = (\<lambda>a b. a) (mem (rect1 + i)) (mem (rect2 + i))"
  proof (rule for_each_pixel_pointwise
      [where C = UNIV and R = "\<lambda>a b. representable rnd a \<and> a \<noteq> NegZero \<and> is_fin b"])
    show "frame_body (cross_float_pixel rnd (Fin 0) (Fin 1))" by (rule frame_cross_float_pixel)
  next
    fix p1 p2 d :: nat and m :: "float heap" and c :: nat
    assume "c < 4" "{d..<d + 4} \<inter> {p1..<p1 + 4} = {}" "{d..<d + 4} \<inter> {p2..<p2 + 4} = {}"
      and "representable rnd (m (p1 + c)) \<and> m (p1 + c) \<noteq> NegZero \<and> is_fin (m (p2 + c))"
    then show "cross_float_pixel rnd (Fin 0) (Fin 1) p1 p2 d m (d + c) = m (p1 + c)"
      by (simp add: cross_float_pixel_channel fmul_one fmul_zero fadd_zero_right)
  qed (use assms in simp_all)
  then show ?thesis
    using assms(1) by (simp add: do_cross_effect_float_def fsub_one_zero)
qed

lemma cross_float_at_one:
  assumes "{out..<out + 4 * (nat y * nat x)} \<inter> {rect1..<rect1 + 4 * (nat y * nat x)} = {}"
    and "{out..<out + 4 * (nat y * nat x)} \<inter> {rect2..<rect2 + 4 * (nat y * nat x)} = {}"
    and "i < 4 * (nat y * nat x)"
    and "representable rnd (mem (rect2 + i))" "mem (rect2 + i) \<noteq> NegZero"
    and "is_fin (mem (rect1 + i))"
  shows "do_cross_effect_float rnd (Fin 1) x y rect1 rect2 out mem (out + i) = mem (rect2 + i)"
proof -
  have "for_each_pixel (cross_float_pixel rnd (Fin 1) (Fin 0)) x y rect1 rect2 out mem (out + i)
        = (\<lambda>a b. b) (mem (rect1 + i)) (mem (rect2 + i))"
  proof (rule for_each_pixel_pointwise
      [where C = UNIV and R = "\<lambda>a b. representable rnd b \<and> b \<noteq> NegZero \<and> is_fin a"])
    show "frame_body (cross_float_pixel rnd (Fin 1) (Fin 0))" by (rule frame_cross_float_pixel)
  next
    fix p1 p2 d :: nat and m :: "float heap" and c :: nat
    assume "c < 4" "{d..<d + 4} \<inter> {p1..<p1 + 4} = {}" "{d..<d + 4} \<inter> {p2..<p2 + 4} = {}"
      and "representable rnd (m (p2 + c)) \<and> m (p2 + c) \<noteq> NegZero \<and> is_fin (m (p1 + c))"
    then show "cross_float_pixel rnd (Fin 1) (Fin 0) p1 p2 d m (d + c) = m (p2 + c)"
      by (simp add: cross_float_pixel_channel fmul_one fmul_zero fadd_zero_left)
  qed (use assms in simp_all)
  then show ?thesis
    by (simp add: do_cross_effect_float_def fsub_one_one)
qed

text \<open>
  Claim C2, as stated, fails on the float path: with factor 0 the arithmetic computes
  \<open>1 * rect1[c] + 0 * rect2[c]\<close>, and \<open>0 * rect2[c]\<close> is a NaN when the second input
  holds an infinity (or a NaN) there. Input 1 is the pixel \<open>(1, 1, 1, 1)\<close> at address 0,
  input 2 the pixel of four positive infinities at address 4, the output is at address 8.
\<close>

theorem cross_float_not_identity_counterexample:
  "do_cross_effect_float exact_rnd (Fin 0) 1 1 0 4 8 demo_floats_inf 8 = NaN
   \<and> demo_floats_inf 0 = Fin 1"
  by (simp add: do_cross_effect_float_def for_each_pixel_def heap_of_def cross_float_pixel_def
      pixel_assign4_def Let_def demo_floats_inf_def fsub_def fadd_def fmul_def exact_rnd_def
      fzero_def is_zero_def)

text \<open>
  Claim C2, amended. For equally sized inputs that the output buffer does not overlap:
  on byte images the per-pixel arithmetic of the cross effect writes input 1 at factor 0
  and input 2 at factor 1, byte for byte; the early-out at these factors picks input 1 and
  input 2 themselves, for byte and float images alike; on float images the arithmetic
  reproduces input 1 at factor 0 (input 2 at factor 1) exactly in every channel where the
  reproduced value is not a negative zero and the other input's value is finite.
  The constants 1 and 256 and the channel values are floats (representable).
\<close>

theorem cross_effect_end_points:
  assumes "rnd 1 = Fin 1" and "rnd 256 = Fin 256"
    and "{out..<out + 4 * (nat y * nat x)} \<inter> {rect1..<rect1 + 4 * (nat y * nat x)} = {}"
    and "{out..<out + 4 * (nat y * nat x)} \<inter> {rect2..<rect2 + 4 * (nat y * nat x)} = {}"
    and "i < 4 * (nat y * nat x)"
  shows "do_cross_effect_byte rnd (Fin 0) x y rect1 rect2 out bytes (out + i) = bytes (rect1 + i)
       \<and> do_cross_effect_byte rnd (Fin 1) x y rect1 rect2 out bytes (out + i) = bytes (rect2 + i)
       \<and> early_out_image (early_out_fade (Fin 0)) img_a img_b = Some img_a
       \<and> early_out_image (early_out_fade (Fin 1)) img_a img_b = Some img_b
       \<and> (representable rnd (floats (rect1 + i)) \<and> floats (rect1 + i) \<noteq> NegZero
            \<and> is_fin (floats (rect2 + i)) \<longrightarrow>
          do_cross_effect_float rnd (Fin 0) x y rect1 rect2 out floats (out + i) = floats (rect1 + i))
       \<and> (representable rnd (floats (rect2 + i)) \<and> floats (rect2 + i) \<noteq> NegZero
            \<and> is_fin (floats (rect1 + i)) \<longrightarrow>
          do_cross_effect_float rnd (Fin 1) x y rect1 rect2 out floats (out + i) = floats (rect2 + i))"
proof (intro conjI impI)
  show "do_cross_effect_byte rnd (Fin 0) x y rect1 rect2 out bytes (out + i) = bytes (rect1 + i)"
    using assms(3,4,5) by (rule cross_byte_at_zero)
  show "do_cross_effect_byte rnd (Fin 1) x y rect1 rect2 out bytes (out + i) = bytes (rect2 + i)"
    using assms(2,3,4,5) by (rule cross_byte_at_one)
  show "early_out_image (early_out_fade (Fin 0)) img_a img_b = Some img_a"
    by (simp add: early_out_fade_def feq_def)
  show "early_out_image (early_out_fade (Fin 1)) img_a img_b = Some img_b"
    by (simp add: early_out_fade_def feq_def)
next
  assume "representable rnd (floats (rect1 + i)) \<and> floats (rect1 + i) \<noteq> NegZero
            \<and> is_fin (floats (rect2 + i))"
  then show "do_cross_effect_float rnd (Fin 0) x y rect1 rect2 out floats (out + i) = floats (rect1 + i)"
    using cross_float_at_zero [where rnd = rnd and mem = floats, OF assms(1,3,4,5)] by blast
next
  assume "representable rnd (floats (rect2 + i)) \<and> floats (rect2 + i) \<noteq> NegZero
            \<and> is_fin (floats (rect1 + i))"
  then show "do_cross_effect_float rnd (Fin 1) x y rect1 rect2 out floats (out + i) = floats (rect2 + i)"
    using cross_float_at_one [where rnd = rnd and mem = floats, OF assms(3,4,5)] by blast
qed

theorem cross_effect_end_points_witness:
  "do_cross_effect_byte exact_rnd (Fin 0) 1 1 0 4 8 demo_bytes (8 + 3) = 10
   \<and> do_cross_effect_byte exact_rnd (Fin 1) 1 1 0 4 8 demo_bytes (8 + 3) = 200
   \<and> do_cross_effect_float exact_rnd (Fin 0) 1 1 0 4 8 demo_floats (8 + 3) = Fin 1
   \<and> do_cross_effect_float exact_rnd (Fin 1) 1 1 0 4 8 demo_floats (8 + 3) = Fin 2"
proof -
  have h: "exact_rnd 1 = Fin 1" "exact_rnd 256 = Fin 256"
    "{8..<8 + 4 * (nat 1 * nat 1)} \<inter> {0..<0 + 4 * (nat 1 * nat 1)} = ({} :: nat set)"
    "{8..<8 + 4 * (nat 1 * nat 1)} \<inter> {4..<4 + 4 * (nat 1 * nat 1)} = ({} :: nat set)"
    "(3::nat) < 4 * (nat 1 * nat 1)"
    by (simp_all add: exact_rnd_def)
  have v: "demo_bytes (0 + 3) = 10" "demo_bytes (4 + 3) = 200"
    "demo_floats (0 + 3) = Fin 1" "demo_floats (4 + 3) = Fin 2"
    by (simp_all add: demo_bytes_def demo_floats_def)
  have r: "representable exact_rnd (Fin 1)" "representable exact_rnd (Fin 2)"
    by (simp_all add: representable_def exact_rnd_def)
  show ?thesis
    using cross_effect_end_points [where rnd = exact_rnd and bytes = demo_bytes and floats = demo_floats
        and img_a = "0::nat" and img_b = "1::nat", OF h] v r
    by simp
qed

subsection \<open>Blend mode effects\<close>

lemma frame_blend_pixel:
  assumes "blend_fn_frame bf"
  shows "frame_body (blend_pixel scale fac bf)"
  unfolding frame_body_def
proof (intro allI impI)
  fix p1 p2 d :: nat and mem :: "'a heap" and a :: nat
  assume a: "a \<notin> {d..<d + 4}"
  define m1 where "m1 = mem(p2 + 3 := scale (mem (p2 + 3)) fac)"
  define m2 where "m2 = bf d p1 p2 m1"
  define m3 where "m3 = m2(p2 + 3 := mem (p2 + 3))"
  have r: "blend_pixel scale fac bf p1 p2 d mem = m3(d + 3 := m3 (p1 + 3))"
    by (simp add: blend_pixel_def Let_def m1_def m2_def m3_def)
  have "a \<noteq> d + 3" using a by auto
  then have "blend_pixel scale fac bf p1 p2 d mem a = m3 a" unfolding r by simp
  also have "m3 a = mem a"
  proof (cases "a = p2 + 3")
    case True
    then show ?thesis by (simp add: m3_def)
  next
    case False
    then have "m3 a = m2 a" by (simp add: m3_def)
    also have "m2 a = m1 a" using assms a unfolding m2_def blend_fn_frame_def by blast
    also have "m1 a = mem a" using False by (simp add: m1_def)
    finally show ?thesis .
  qed
  finally show "blend_pixel scale fac bf p1 p2 d mem a = mem a" .
qed

lemma blend_pixel_alpha:
  assumes "blend_fn_frame bf" and "p1 + 3 \<notin> {d..<d + 4}"
  shows "blend_pixel scale fac bf p1 p2 d mem (d + 3) = mem (p1 + 3)"
proof -
  define m1 where "m1 = mem(p2 + 3 := scale (mem (p2 + 3)) fac)"
  define m2 where "m2 = bf d p1 p2 m1"
  define m3 where "m3 = m2(p2 + 3 := mem (p2 + 3))"
  have r: "blend_pixel scale fac bf p1 p2 d mem = m3(d + 3 := m3 (p1 + 3))"
    by (simp add: blend_pixel_def Let_def m1_def m2_def m3_def)
  have "m3 (p1 + 3) = mem (p1 + 3)"
  proof (cases "p1 + 3 = p2 + 3")
    case True
    then show ?thesis by (simp add: m3_def)
  next
    case False
    then have "m3 (p1 + 3) = m2 (p1 + 3)" by (simp add: m3_def)
    also have "m2 (p1 + 3) = m1 (p1 + 3)"
      using assms unfolding m2_def blend_fn_frame_def by blast
    also have "m1 (p1 + 3) = mem (p1 + 3)" using False by (simp add: m1_def)
    finally show ?thesis .
  qed
  then show ?thesis unfolding r by simp
qed

lemma do_blend_effect_frame:
  assumes "\<forall>b. blend_fn_frame (run b)" and "a \<notin> {out..<out + 4 * (nat y * nat x)}"
  shows "do_blend_effect K run scale fac x y rect1 rect2 btype out mem a = mem a"
proof (cases "blend_case_of K btype")
  case None
  then show ?thesis by (simp add: do_blend_effect_def)
next
  case (Some b)
  have "frame_body (blend_pixel scale fac (run b))"
    using assms(1) by (simp add: frame_blend_pixel)
  then show ?thesis
    using Some assms(2)
    by (simp add: do_blend_effect_def apply_blend_function_def for_each_pixel_frame)
qed

lemma do_blend_effect_alpha:
  assumes "\<forall>b. blend_fn_frame (run b)"
    and "blend_case_of K btype \<noteq> None"
    and "{out..<out + 4 * (nat y * nat x)} \<inter> {rect1..<rect1 + 4 * (nat y * nat x)} = {}"
    and "{out..<out + 4 * (nat y * nat x)} \<inter> {rect2..<rect2 + 4 * (nat y * nat x)} = {}"
    and "k < nat y * nat x"
  shows "do_blend_effect K run scale fac x y rect1 rect2 btype out mem (out + (4 * k + 3))
         = mem (rect1 + (4 * k + 3))"
proof -
  obtain b where b: "blend_case_of K btype = Some b" using assms(2) by blast
  have fr: "blend_fn_frame (run b)" using assms(1) by simp
  have "for_each_pixel (blend_pixel scale fac (run b)) x y rect1 rect2 out mem (out + (4 * k + 3))
        = (\<lambda>u v. u) (mem (rect1 + (4 * k + 3))) (mem (rect2 + (4 * k + 3)))"
  proof (rule for_each_pixel_pointwise [where C = "{3}" and R = "\<lambda>u v. True"])
    show "frame_body (blend_pixel scale fac (run b))" by (rule frame_blend_pixel [OF fr])
  next
    fix p1 p2 d :: nat and m :: "'a heap" and c :: nat
    assume c: "c \<in> {3}" and "{d..<d + 4} \<inter> {p1..<p1 + 4} = {}"
    then have "p1 + 3 \<notin> {d..<d + 4}" by (auto simp: disjoint_iff)
    then show "blend_pixel scale fac (run b) p1 p2 d m (d + c) = m (p1 + c)"
      using c blend_pixel_alpha [OF fr] by simp
  next
    show "4 * k + 3 < 4 * (nat y * nat x)" using assms(5) by simp
    show "(4 * k + 3) mod 4 \<in> {3::nat}" by (simp add: mod_mult_self4)
  qed (use assms in simp_all)
  then show ?thesis
    by (simp add: do_blend_effect_def apply_blend_function_def b)
qed

text \<open>
  Claim C3. Whatever the blend mode (also one that is no case of the switch), the factor
  and the channel type (byte or float), a blend mode effect and the color mix effect leave
  every address outside the output slice as it was: in particular the whole second input,
  whose alpha channel each pixel step scales by the factor before it calls the blend
  function and sets back to the saved value after the call. The blend functions write
  nothing but the destination pixel they are given.
\<close>

theorem blend_effect_inputs_unchanged:
  assumes "\<forall>b. blend_fn_frame (run b)"
    and "a \<notin> {out + slice_offset (rectx ctx) start_line
               ..<out + slice_offset (rectx ctx) start_line
                    + 4 * (nat total_lines * nat (rectx ctx))}"
  shows "do_blend_mode_effect K run scale ctx blend_mode fac ibuf_one ibuf_two
           start_line total_lines out mem a = mem a
       \<and> do_colormix_effect K run scale ctx data fac ibuf_one ibuf_two
           start_line total_lines out mem a = mem a"
  using assms
  by (simp add: do_blend_mode_effect_def do_colormix_effect_def Let_def do_blend_effect_frame)


lemma demo_blend_frame: "\<forall>b. blend_fn_frame (demo_blend b)"
  by (simp add: blend_fn_frame_def demo_blend_def pixel_assign4_frame)

theorem blend_effect_inputs_unchanged_witness:
  "do_blend_mode_effect dna_seq_type demo_blend (scale_uchar exact_rnd)
     \<lparr>rectx = 1, recty = 1, sequencer_colorspace = []\<rparr> 43 (Fin (1 / 2)) 0 4 0 1 8 demo_bytes 7 = 200
   \<and> do_colormix_effect dna_seq_type demo_blend (scale_uchar exact_rnd)
     \<lparr>rectx = 1, recty = 1, sequencer_colorspace = []\<rparr> \<lparr>blend_effect = 49, factor = Fin (1 / 2)\<rparr>
     (Fin (1 / 2)) 0 4 0 1 8 demo_bytes 7 = 200"
proof -
  have a: "(7::nat) \<notin> {8 + slice_offset (rectx \<lparr>rectx = 1, recty = 1, sequencer_colorspace = []\<rparr>) 0
               ..<8 + slice_offset (rectx \<lparr>rectx = 1, recty = 1, sequencer_colorspace = []\<rparr>) 0
                    + 4 * (nat 1 * nat (rectx \<lparr>rectx = 1, recty = 1, sequencer_colorspace = []\<rparr>))}"
    by (simp add: slice_offset_def)
  have v: "demo_bytes 7 = 200" by (simp add: demo_bytes_def)
  show ?thesis
    using blend_effect_inputs_unchanged [where run = demo_blend and a = 7 and out = 8
        and ctx = "\<lparr>rectx = 1, recty = 1, sequencer_colorspace = []\<rparr>"
        and start_line = 0 and total_lines = 1 and K = dna_seq_type
        and scale = "scale_uchar exact_rnd" and blend_mode = 43 and fac = "Fin (1 / 2)"
        and data = "\<lparr>blend_effect = 49, factor = Fin (1 / 2)\<rparr>" and mem = demo_bytes
        and ibuf_one = 0 and ibuf_two = 4, OF demo_blend_frame a]
    by (simp add: v)
qed

subsection \<open>Alpha of the add, subtract and blend mode effects\<close>

lemma frame_add_byte_pixel: "frame_body (add_byte_pixel tf)"
  by (simp add: frame_body_def add_byte_pixel_def Let_def pixel_assign4_frame)

lemma frame_sub_byte_pixel: "frame_body (sub_byte_pixel tf)"
  by (simp add: frame_body_def sub_byte_pixel_def Let_def pixel_assign4_frame)

lemma frame_add_float_pixel: "frame_body (add_float_pixel rnd fac)"
  by (simp add: frame_body_def add_float_pixel_def Let_def pixel_assign4_frame)

lemma frame_sub_float_pixel: "frame_body (sub_float_pixel rnd mfac)"
  by (simp add: frame_body_def sub_float_pixel_def Let_def pixel_assign4_frame)

lemma pixel_assign4_alpha_copy:
  assumes "{d..<d + 4} \<inter> {p1..<p1 + 4} = {}"
  shows "pixel_assign4 (\<lambda>c m. if c < 3 then g c m else m (p1 + 3)) d mem (d + 3) = mem (p1 + 3)"
proof -
  have n: "p1 + 3 \<notin> {d..<d + 4}" using assms by (auto simp: disjoint_iff)
  show ?thesis
    by (rule trans [OF pixel_assign4_channel]) (use n in simp_all)
qed

lemma alpha_copy_loop:
  assumes fr: "frame_body body"
    and al: "\<And>p1 p2 d mem. {d..<d + 4} \<inter> {p1..<p1 + 4} = {} \<Longrightarrow> body p1 p2 d mem (d + 3) = mem (p1 + 3)"
    and "{out..<out + 4 * (nat y * nat x)} \<inter> {rect1..<rect1 + 4 * (nat y * nat x)} = {}"
    and "{out..<out + 4 * (nat y * nat x)} \<inter> {rect2..<rect2 + 4 * (nat y * nat x)} = {}"
    and "k < nat y * nat x"
  shows "for_each_pixel body x y rect1 rect2 out mem (out + (4 * k + 3)) = mem (rect1 + (4 * k + 3))"
proof -
  have "for_each_pixel body x y rect1 rect2 out mem (out + (4 * k + 3))
        = (\<lambda>u v. u) (mem (rect1 + (4 * k + 3))) (mem (rect2 + (4 * k + 3)))"
  proof (rule for_each_pixel_pointwise [where C = "{3}" and R = "\<lambda>u v. True"])
    show "frame_body body" by (rule fr)
  next
    fix p1 p2 d :: nat and m :: "'a heap" and c :: nat
    assume "c \<in> {3}" and "{d..<d + 4} \<inter> {p1..<p1 + 4} = {}"
    then show "body p1 p2 d m (d + c) = m (p1 + c)" using al by simp
  next
    show "4 * k + 3 < 4 * (nat y * nat x)" using assms(5) by simp
    show "(4 * k + 3) mod 4 \<in> {3::nat}" by (simp add: mod_mult_self4)
  qed (use assms in simp_all)
  then show ?thesis by simp
qed

text \<open>
  Claim C10. For every pixel of the slice, every blend sub-mode that is a case of the
  switch, and every factor, the blend mode effect and the color mix effect write the alpha
  of input 1 to the alpha channel of the output pixel (whatever alpha the blend function
  computed is overwritten), and so do the add and the subtract effect, on byte and on
  float buffers. The output slice overlaps neither input slice.
\<close>

theorem blend_add_sub_alpha_from_input1:
  assumes "\<forall>b. blend_fn_frame (run b)"
    and "blend_case_of K blend_mode \<noteq> None"
    and "blend_case_of K (blend_effect data) \<noteq> None"
    and "{out + slice_offset (rectx ctx) start_line
           ..<out + slice_offset (rectx ctx) start_line + 4 * (nat total_lines * nat (rectx ctx))}
         \<inter> {ibuf_one + slice_offset (rectx ctx) start_line
           ..<ibuf_one + slice_offset (rectx ctx) start_line + 4 * (nat total_lines * nat (rectx ctx))}
         = {}"
    and "{out + slice_offset (rectx ctx) start_line
           ..<out + slice_offset (rectx ctx) start_line + 4 * (nat total_lines * nat (rectx ctx))}
         \<inter> {ibuf_two + slice_offset (rectx ctx) start_line
           ..<ibuf_two + slice_offset (rectx ctx) start_line + 4 * (nat total_lines * nat (rectx ctx))}
         = {}"
    and "k < nat total_lines * nat (rectx ctx)"
  shows "do_blend_mode_effect K run scale ctx blend_mode fac ibuf_one ibuf_two start_line total_lines out mem
           (out + slice_offset (rectx ctx) start_line + (4 * k + 3))
         = mem (ibuf_one + slice_offset (rectx ctx) start_line + (4 * k + 3))
       \<and> do_colormix_effect K run scale ctx data fac ibuf_one ibuf_two start_line total_lines out mem
           (out + slice_offset (rectx ctx) start_line + (4 * k + 3))
         = mem (ibuf_one + slice_offset (rectx ctx) start_line + (4 * k + 3))
       \<and> do_add_effect_byte rnd fac (rectx ctx) total_lines
           (ibuf_one + slice_offset (rectx ctx) start_line)
           (ibuf_two + slice_offset (rectx ctx) start_line)
           (out + slice_offset (rectx ctx) start_line) bytes
           (out + slice_offset (rectx ctx) start_line + (4 * k + 3))
         = bytes (ibuf_one + slice_offset (rectx ctx) start_line + (4 * k + 3))
       \<and> do_add_effect_float rnd fac (rectx ctx) total_lines
           (ibuf_one + slice_offset (rectx ctx) start_line)
           (ibuf_two + slice_offset (rectx ctx) start_line)
           (out + slice_offset (rectx ctx) start_line) floats
           (out + slice_offset (rectx ctx) start_line + (4 * k + 3))
         = floats (ibuf_one + slice_offset (rectx ctx) start_line + (4 * k + 3))
       \<and> do_sub_effect_byte rnd fac (rectx ctx) total_lines
           (ibuf_one + slice_offset (rectx ctx) start_line)
           (ibuf_two + slice_offset (rectx ctx) start_line)
           (out + slice_offset (rectx ctx) start_line) bytes
           (out + slice_offset (rectx ctx) start_line + (4 * k + 3))
         = bytes (ibuf_one + slice_offset (rectx ctx) start_line + (4 * k + 3))
       \<and> do_sub_effect_float rnd fac (rectx ctx) total_lines
           (ibuf_one + slice_offset (rectx ctx) start_line)
           (ibuf_two + slice_offset (rectx ctx) start_line)
           (out + slice_offset (rectx ctx) start_line) floats
           (out + slice_offset (rectx ctx) start_line + (4 * k + 3))
         = floats (ibuf_one + slice_offset (rectx ctx) start_line + (4 * k + 3))"
proof -
  define off where "off = slice_offset (rectx ctx) start_line"
  note d = assms(4,5) [folded off_def] and k = assms(6)
  have 1: "do_blend_effect K run scale fac (rectx ctx) total_lines (ibuf_one + off) (ibuf_two + off)
             blend_mode (out + off) mem (out + off + (4 * k + 3)) = mem (ibuf_one + off + (4 * k + 3))"
    by (rule do_blend_effect_alpha [OF assms(1,2) d k])
  have 2: "do_blend_effect K run scale (factor data) (rectx ctx) total_lines (ibuf_one + off) (ibuf_two + off)
             (blend_effect data) (out + off) mem (out + off + (4 * k + 3)) = mem (ibuf_one + off + (4 * k + 3))"
    by (rule do_blend_effect_alpha [OF assms(1,3) d k])
  have 3: "for_each_pixel (add_byte_pixel tf) (rectx ctx) total_lines (ibuf_one + off) (ibuf_two + off)
             (out + off) bytes (out + off + (4 * k + 3)) = bytes (ibuf_one + off + (4 * k + 3))" for tf
    by (rule alpha_copy_loop [OF frame_add_byte_pixel _ d k])
       (simp add: add_byte_pixel_def Let_def pixel_assign4_alpha_copy)
  have 4: "for_each_pixel (add_float_pixel rnd fac) (rectx ctx) total_lines (ibuf_one + off) (ibuf_two + off)
             (out + off) floats (out + off + (4 * k + 3)) = floats (ibuf_one + off + (4 * k + 3))"
    by (rule alpha_copy_loop [OF frame_add_float_pixel _ d k])
       (simp add: add_float_pixel_def Let_def pixel_assign4_alpha_copy)
  have 5: "for_each_pixel (sub_byte_pixel tf) (rectx ctx) total_lines (ibuf_one + off) (ibuf_two + off)
             (out + off) bytes (out + off + (4 * k + 3)) = bytes (ibuf_one + off + (4 * k + 3))" for tf
    by (rule alpha_copy_loop [OF frame_sub_byte_pixel _ d k])
       (simp add: sub_byte_pixel_def Let_def pixel_assign4_alpha_copy)
  have 6: "for_each_pixel (sub_float_pixel rnd mf) (rectx ctx) total_lines (ibuf_one + off) (ibuf_two + off)
             (out + off) floats (out + off + (4 * k + 3)) = floats (ibuf_one + off + (4 * k + 3))" for mf
    by (rule alpha_copy_loop [OF frame_sub_float_pixel _ d k])
       (simp add: sub_float_pixel_def Let_def pixel_assign4_alpha_copy)
  show ?thesis
    unfolding do_blend_mode_effect_def do_colormix_effect_def Let_def
      do_add_effect_byte_def do_add_effect_float_def do_sub_effect_byte_def do_sub_effect_float_def
      off_def [symmetric]
    using 1 2 3 4 5 6 by simp
qed


theorem blend_add_sub_alpha_from_input1_witness:
  "do_blend_mode_effect dna_seq_type demo_blend (scale_uchar exact_rnd)
     \<lparr>rectx = 1, recty = 1, sequencer_colorspace = []\<rparr> 43 (Fin (1 / 2)) 0 4 0 1 8 demo_bytes 11 = 10
   \<and> do_colormix_effect dna_seq_type demo_blend (scale_uchar exact_rnd)
     \<lparr>rectx = 1, recty = 1, sequencer_colorspace = []\<rparr> \<lparr>blend_effect = 49, factor = Fin (1 / 2)\<rparr>
     (Fin (1 / 2)) 0 4 0 1 8 demo_bytes 11 = 10
   \<and> do_add_effect_byte exact_rnd (Fin (1 / 2)) 1 1 0 4 8 demo_bytes 11 = 10
   \<and> do_add_effect_float exact_rnd (Fin (1 / 2)) 1 1 0 4 8 demo_floats 11 = Fin 1
   \<and> do_sub_effect_byte exact_rnd (Fin (1 / 2)) 1 1 0 4 8 demo_bytes 11 = 10
   \<and> do_sub_effect_float exact_rnd (Fin (1 / 2)) 1 1 0 4 8 demo_floats 11 = Fin 1"
proof -
  let ?c = "\<lparr>rectx = 1, recty = 1, sequencer_colorspace = []\<rparr>"
  have m: "blend_case_of dna_seq_type 43 \<noteq> None"
    "blend_case_of dna_seq_type (blend_effect \<lparr>blend_effect = 49, factor = Fin (1 / 2)\<rparr>) \<noteq> None"
    by (simp_all add: blend_case_of_def blend_cases_def)
  have d: "{8 + slice_offset (rectx ?c) 0..<8 + slice_offset (rectx ?c) 0 + 4 * (nat 1 * nat (rectx ?c))}
           \<inter> {0 + slice_offset (rectx ?c) 0..<0 + slice_offset (rectx ?c) 0 + 4 * (nat 1 * nat (rectx ?c))}
           = {}"
    "{8 + slice_offset (rectx ?c) 0..<8 + slice_offset (rectx ?c) 0 + 4 * (nat 1 * nat (rectx ?c))}
           \<inter> {4 + slice_offset (rectx ?c) 0..<4 + slice_offset (rectx ?c) 0 + 4 * (nat 1 * nat (rectx ?c))}
           = {}"
    "(0::nat) < nat 1 * nat (rectx ?c)"
    by (simp_all add: slice_offset_def)
  have v: "demo_bytes 3 = 10" "demo_floats 3 = Fin 1"
    by (simp_all add: demo_bytes_def demo_floats_def)
  show ?thesis
    using blend_add_sub_alpha_from_input1 [where run = demo_blend and K = dna_seq_type
        and blend_mode = 43 and data = "\<lparr>blend_effect = 49, factor = Fin (1 / 2)\<rparr>"
        and ctx = ?c and start_line = 0 and total_lines = 1 and out = 8
        and ibuf_one = 0 and ibuf_two = 4 and k = 0 and scale = "scale_uchar exact_rnd"
        and fac = "Fin (1 / 2)" and mem = demo_bytes and bytes = demo_bytes
        and floats = demo_floats and rnd = exact_rnd, OF demo_blend_frame m d]
    by (simp add: v slice_offset_def)
qed

subsection \<open>Gaussian blur with a one-element kernel\<close>

lemma accum_loop_once:
  "accum_loop rnd gaussian sample n n index (accum, accum_weight)
   = (\<lambda>c. fadd rnd (accum c) (fmul rnd (sample n c) (gaussian ! nat index)),
      fadd rnd accum_weight (gaussian ! nat index))"
  apply (subst accum_loop.simps)
  apply (simp add: Let_def)
  apply (subst accum_loop.simps)
  apply simp
  done

lemma fmul_one_right: "representable rnd a \<Longrightarrow> fmul rnd a (Fin 1) = a"
  by (cases a) (auto simp: fmul_def representable_def fzero_def is_zero_def)

lemma fadd_zero_first: "representable rnd a \<Longrightarrow> fadd rnd (Fin 0) a = unsigned_zero a"
  by (cases a) (auto simp: fadd_def representable_def fzero_def unsigned_zero_def)

lemma representable_unsigned_zero: "representable rnd a \<Longrightarrow> representable rnd (unsigned_zero a)"
  by (simp add: representable_def unsigned_zero_def)

text \<open>What one pixel step with the kernel \<open>[1]\<close> computes for a channel whose source
  value converts to \<open>u\<close>.\<close>

lemma unit_kernel_channel:
  assumes "rnd 1 = Fin 1" and "representable rnd u"
  shows "fmul rnd (fadd rnd (Fin 0) (fmul rnd u (Fin 1)))
           (fdiv rnd (Fin 1) (fadd rnd (Fin 0) (Fin 1)))
         = unsigned_zero u"
proof -
  have w: "fadd rnd (Fin 0) (Fin 1) = Fin 1" using assms(1) by (simp add: fadd_def)
  have i: "fdiv rnd (Fin 1) (Fin 1) = Fin 1" using assms(1) by (simp add: fdiv_def is_zero_def)
  show ?thesis
    using assms(2)
    by (simp add: w i fmul_one_right fadd_zero_first representable_unsigned_zero)
qed

lemma blur_x_pixel_unit:
  assumes "rnd 1 = Fin 1" and "0 \<le> x" "x < width" and "c < 4"
    and "rect + nat ((y * width + x) * 4) + c \<notin> {d..<d + 4}"
    and "representable rnd (ld (mem (rect + nat ((y * width + x) * 4) + c)))"
  shows "gaussian_blur_x_pixel rnd ld st [Fin 1] 0 width rect y x d mem (d + c)
         = st (unsigned_zero (ld (mem (rect + nat ((y * width + x) * 4) + c))))"
proof -
  have mm: "max x 0 = x" "min x (width - 1) = x" using assms(2,3) by simp_all
  let ?e = "\<lambda>c (m :: 'a heap). st (fmul rnd (fadd rnd (Fin 0)
              (fmul rnd (ld (mem (rect + nat ((y * width + x) * 4) + c))) (Fin 1)))
              (fdiv rnd (Fin 1) (fadd rnd (Fin 0) (Fin 1))))"
  have "gaussian_blur_x_pixel rnd ld st [Fin 1] 0 width rect y x d mem = pixel_assign4 ?e d mem"
    unfolding gaussian_blur_x_pixel_def Let_def by (simp add: mm accum_loop_once)
  moreover have "pixel_assign4 ?e d mem (d + c) = ?e c mem"
    by (rule pixel_assign4_channel [OF assms(4)]) simp
  ultimately show ?thesis
    by (simp only: unit_kernel_channel [OF assms(1,6)])
qed

lemma blur_y_pixel_unit:
  assumes "rnd 1 = Fin 1" and "0 \<le> y" "y < frame_height" and "c < 4"
    and "rect + nat ((y * width + x) * 4) + c \<notin> {d..<d + 4}"
    and "representable rnd (ld (mem (rect + nat ((y * width + x) * 4) + c)))"
  shows "gaussian_blur_y_pixel rnd ld st [Fin 1] 0 width frame_height rect y x d mem (d + c)
         = st (unsigned_zero (ld (mem (rect + nat ((y * width + x) * 4) + c))))"
proof -
  have mm: "max y 0 = y" "min y (frame_height - 1) = y" using assms(2,3) by simp_all
  let ?e = "\<lambda>c (m :: 'a heap). st (fmul rnd (fadd rnd (Fin 0)
              (fmul rnd (ld (mem (rect + nat ((y * width + x) * 4) + c))) (Fin 1)))
              (fdiv rnd (Fin 1) (fadd rnd (Fin 0) (Fin 1))))"
  have "gaussian_blur_y_pixel rnd ld st [Fin 1] 0 width frame_height rect y x d mem
        = pixel_assign4 ?e d mem"
    unfolding gaussian_blur_y_pixel_def Let_def by (simp add: mm accum_loop_once)
  moreover have "pixel_assign4 ?e d mem (d + c) = ?e c mem"
    by (rule pixel_assign4_channel [OF assms(4)]) simp
  ultimately show ?thesis
    by (simp only: unit_kernel_channel [OF assms(1,6)])
qed

lemma frame_blur_x_pixel:
  "a \<notin> {d..<d + 4} \<Longrightarrow> gaussian_blur_x_pixel rnd ld st g hs width rect y x d mem a = mem a"
  by (simp add: gaussian_blur_x_pixel_def Let_def pixel_assign4_frame split: prod.splits)

lemma frame_blur_y_pixel:
  "a \<notin> {d..<d + 4} \<Longrightarrow> gaussian_blur_y_pixel rnd ld st g hs width fh rect y x d mem a = mem a"
  by (simp add: gaussian_blur_y_pixel_def Let_def pixel_assign4_frame split: prod.splits)

lemma blur_cols_fst: "fst (blur_cols body y n x (d, mem)) = d + 4 * n"
  by (induction n arbitrary: x d mem) simp_all

lemma blur_cols_frame:
  assumes "\<And>y x d m a. a \<notin> {d..<d + 4} \<Longrightarrow> body y x d m a = m a"
    and "a \<notin> {d..<d + 4 * n}"
  shows "snd (blur_cols body y n x (d, mem)) a = mem a"
  using assms(2)
proof (induction n arbitrary: x d mem)
  case 0
  then show ?case by simp
next
  case (Suc n)
  have 1: "a \<notin> {d + 4..<d + 4 + 4 * n}" and 2: "a \<notin> {d..<d + 4}" using Suc.prems by auto
  show ?case using Suc.IH [OF 1] assms(1) [OF 2] by simp
qed

lemma blur_rows_fst: "fst (blur_rows body width n y (d, mem)) = d + 4 * (n * nat width)"
proof (induction n arbitrary: y d mem)
  case 0
  then show ?case by simp
next
  case (Suc n)
  obtain d' m' where s: "blur_cols body y (nat width) 0 (d, mem) = (d', m')"
    by (cases "blur_cols body y (nat width) 0 (d, mem)") auto
  have "d' = d + 4 * nat width" using blur_cols_fst [of body y "nat width" 0 d mem] s by simp
  then show ?case using Suc.IH [of "y + 1" d' m'] s by (simp add: algebra_simps)
qed

lemma blur_rows_frame:
  assumes "\<And>y x d m a. a \<notin> {d..<d + 4} \<Longrightarrow> body y x d m a = m a"
    and "a \<notin> {d..<d + 4 * (n * nat width)}"
  shows "snd (blur_rows body width n y (d, mem)) a = mem a"
  using assms(2)
proof (induction n arbitrary: y d mem)
  case 0
  then show ?case by simp
next
  case (Suc n)
  obtain d' m' where s: "blur_cols body y (nat width) 0 (d, mem) = (d', m')"
    by (cases "blur_cols body y (nat width) 0 (d, mem)") auto
  have d': "d' = d + 4 * nat width" using blur_cols_fst [of body y "nat width" 0 d mem] s by simp
  have 1: "a \<notin> {d'..<d' + 4 * (n * nat width)}" using Suc.prems d' by (auto simp: algebra_simps)
  have 2: "a \<notin> {d..<d + 4 * nat width}" using Suc.prems by (auto simp: algebra_simps)
  have "m' a = mem a" using blur_cols_frame [of body a d "nat width" y 0 mem, OF assms(1) 2] s by simp
  then show ?case using Suc.IH [OF 1, of "y + 1" m'] s by simp
qed

lemma blur_cols_pointwise:
  assumes frame: "\<And>y x d m a. a \<notin> {d..<d + 4} \<Longrightarrow> body y x d m a = m a"
  shows "(\<And>x d' m c. c < 4 \<Longrightarrow> xfirst \<le> x \<Longrightarrow> x < xfirst + int n \<Longrightarrow> (\<forall>a\<in>S. m a = mem a) \<Longrightarrow>
            S \<inter> {d'..<d' + 4} = {} \<Longrightarrow> body y x d' m (d' + c) = G x c) \<Longrightarrow>
         S \<inter> {d..<d + 4 * n} = {} \<Longrightarrow> q < n \<Longrightarrow> c < 4 \<Longrightarrow>
         snd (blur_cols body y n xfirst (d, mem)) (d + 4 * q + c) = G (xfirst + int q) c"
proof (induction n arbitrary: xfirst d mem q)
  case 0
  then show ?case by simp
next
  case (Suc n)
  let ?m = "body y xfirst d mem"
  have S4: "S \<inter> {d..<d + 4} = {}" using Suc.prems(2) by (auto simp: disjoint_iff)
  have keep: "\<forall>a\<in>S. ?m a = mem a"
  proof
    fix a assume "a \<in> S"
    then have "a \<notin> {d..<d + 4}" using S4 by (auto simp: disjoint_iff)
    then show "?m a = mem a" by (rule frame)
  qed
  show ?case
  proof (cases q)
    case 0
    have nin: "d + c \<notin> {d + 4..<d + 4 + 4 * n}" using Suc.prems(4) by simp
    have "snd (blur_cols body y (Suc n) xfirst (d, mem)) (d + c) = ?m (d + c)"
      using blur_cols_frame [of body "d + c" "d + 4" n y "xfirst + 1" ?m, OF frame nin] by simp
    also have "\<dots> = G xfirst c"
      by (rule Suc.prems(1) [OF Suc.prems(4)]) (use S4 in simp_all)
    finally show ?thesis using 0 by simp
  next
    case (Suc q')
    have v: "body y x d' m (d' + c') = G x c'"
      if "c' < 4" "xfirst + 1 \<le> x" "x < xfirst + 1 + int n" "\<forall>a\<in>S. m a = ?m a" "S \<inter> {d'..<d' + 4} = {}"
      for x d' m c'
    proof (rule Suc.prems(1) [OF that(1)])
      show "xfirst \<le> x" "x < xfirst + int (Suc n)" using that(2,3) by simp_all
      show "\<forall>a\<in>S. m a = mem a" using that(4) keep by simp
      show "S \<inter> {d'..<d' + 4} = {}" by (rule that(5))
    qed
    have dis: "S \<inter> {d + 4..<d + 4 + 4 * n} = {}" using Suc.prems(2) by (auto simp: disjoint_iff)
    have q': "q' < n" using Suc.prems(3) Suc by simp
    have "snd (blur_cols body y n (xfirst + 1) (d + 4, ?m)) (d + 4 + 4 * q' + c) = G (xfirst + 1 + int q') c"
      by (rule Suc.IH [OF v dis q' Suc.prems(4)])
    then show ?thesis using Suc by (simp add: algebra_simps)
  qed
qed

lemma blur_rows_pointwise:
  assumes frame: "\<And>y x d m a. a \<notin> {d..<d + 4} \<Longrightarrow> body y x d m a = m a"
  shows "(\<And>y x d' m c. c < 4 \<Longrightarrow> yfirst \<le> y \<Longrightarrow> y < yfirst + int n \<Longrightarrow> 0 \<le> x \<Longrightarrow> x < int (nat width) \<Longrightarrow>
            (\<forall>a\<in>S. m a = mem a) \<Longrightarrow> S \<inter> {d'..<d' + 4} = {} \<Longrightarrow>
            body y x d' m (d' + c) = G y x c) \<Longrightarrow>
         S \<inter> {d..<d + 4 * (n * nat width)} = {} \<Longrightarrow> r < n \<Longrightarrow> q < nat width \<Longrightarrow> c < 4 \<Longrightarrow>
         snd (blur_rows body width n yfirst (d, mem)) (d + 4 * (r * nat width + q) + c)
         = G (yfirst + int r) (int q) c"
proof (induction n arbitrary: yfirst d mem r)
  case 0
  then show ?case by simp
next
  case (Suc n)
  let ?w = "nat width"
  obtain d1 m1 where s: "blur_cols body yfirst ?w 0 (d, mem) = (d1, m1)"
    by (cases "blur_cols body yfirst ?w 0 (d, mem)") auto
  have d1: "d1 = d + 4 * ?w" using blur_cols_fst [of body yfirst ?w 0 d mem] s by simp
  have Srow: "S \<inter> {d..<d + 4 * ?w} = {}" using Suc.prems(2) by (auto simp: disjoint_iff)
  have keep: "\<forall>a\<in>S. m1 a = mem a"
  proof
    fix a assume "a \<in> S"
    then have "a \<notin> {d..<d + 4 * ?w}" using Srow by (auto simp: disjoint_iff)
    then show "m1 a = mem a"
      using blur_cols_frame [of body a d ?w yfirst 0 mem, OF frame] s by simp
  qed
  have row: "m1 (d + 4 * q + c) = G yfirst (int q) c"
  proof -
    have "snd (blur_cols body yfirst ?w 0 (d, mem)) (d + 4 * q + c) = G yfirst (0 + int q) c"
    proof (rule blur_cols_pointwise [where S = S and G = "G yfirst" and body = body and mem = mem
          and n = "?w" and d = d and q = q and c = c and y = yfirst])
      show "\<And>y x d m a. a \<notin> {d..<d + 4} \<Longrightarrow> body y x d m a = m a" by (rule frame)
      show "S \<inter> {d..<d + 4 * ?w} = {}" by (rule Srow)
      show "q < ?w" "c < 4" by (rule Suc.prems(4), rule Suc.prems(5))
    next
      fix x :: int and d' :: nat and m :: "'a heap" and c' :: nat
      assume "c' < 4" "0 \<le> x" "x < 0 + int ?w" "\<forall>a\<in>S. m a = mem a" "S \<inter> {d'..<d' + 4} = {}"
      then show "body yfirst x d' m (d' + c') = G yfirst x c'"
        using Suc.prems(1) [of c' yfirst x m d'] by simp
    qed
    then show ?thesis using s by simp
  qed
  show ?case
  proof (cases r)
    case 0
    have nin: "d + 4 * q + c \<notin> {d1..<d1 + 4 * (n * ?w)}"
      using Suc.prems(4,5) d1 by simp
    have "snd (blur_rows body width n (yfirst + 1) (d1, m1)) (d + 4 * q + c) = m1 (d + 4 * q + c)"
      by (rule blur_rows_frame [where body = body, OF frame nin])
    then show ?thesis using 0 s row by simp
  next
    case (Suc r')
    have v: "body y x d' m (d' + c') = G y x c'"
      if "c' < 4" "yfirst + 1 \<le> y" "y < yfirst + 1 + int n" "0 \<le> x" "x < int ?w"
        "\<forall>a\<in>S. m a = m1 a" "S \<inter> {d'..<d' + 4} = {}"
      for y x d' m c'
    proof (rule Suc.prems(1) [OF that(1)])
      show "yfirst \<le> y" "y < yfirst + int (Suc n)" using that(2,3) by simp_all
      show "0 \<le> x" "x < int ?w" by (rule that(4), rule that(5))
      show "\<forall>a\<in>S. m a = mem a" using that(6) keep by simp
      show "S \<inter> {d'..<d' + 4} = {}" by (rule that(7))
    qed
    have dis: "S \<inter> {d1..<d1 + 4 * (n * ?w)} = {}"
      using Suc.prems(2) d1 by (auto simp: disjoint_iff algebra_simps)
    have r': "r' < n" using Suc.prems(3) Suc by simp
    have "snd (blur_rows body width n (yfirst + 1) (d1, m1)) (d1 + 4 * (r' * ?w + q) + c)
          = G (yfirst + 1 + int r') (int q) c"
      by (rule Suc.IH [OF v dis r' Suc.prems(4,5)])
    then show ?thesis using Suc s d1 by (simp add: algebra_simps)
  qed
qed

lemma slice_address:
  assumes "0 \<le> s" and "0 \<le> width"
  shows "nat (((s + int r) * width + int q) * 4) = nat (s * width * 4) + 4 * (r * nat width + q)"
proof -
  have "int (nat (s * width * 4) + 4 * (r * nat width + q)) = ((s + int r) * width + int q) * 4"
    using assms by (simp add: algebra_simps)
  then show ?thesis by (metis nat_int)
qed

lemma pixel_index_bound:
  assumes "r < h" and "q < w" and "c < 4"
  shows "4 * (r * w + q) + c < 4 * (h * (w::nat))"
proof -
  have "r * w + q < Suc r * w" using assms(2) by simp
  also have "\<dots> \<le> h * w" using assms(1) by (intro mult_le_mono1) simp
  finally show ?thesis using assms(3) by simp
qed

text \<open>A pass whose pixel step stores the converted source channel: the output slice holds the
  converted input slice.\<close>

lemma unit_blur_core:
  fixes body :: "int \<Rightarrow> int \<Rightarrow> nat \<Rightarrow> 'a heap \<Rightarrow> 'a heap"
  assumes frame: "\<And>y x d m a. a \<notin> {d..<d + 4} \<Longrightarrow> body y x d m a = m a"
    and unit: "\<And>y x d m c. c < 4 \<Longrightarrow> start_line \<le> y \<Longrightarrow> y < start_line + height \<Longrightarrow> 0 \<le> x \<Longrightarrow>
                 x < width \<Longrightarrow> rect + nat ((y * width + x) * 4) + c \<notin> {d..<d + 4} \<Longrightarrow>
                 representable rnd (ld (m (rect + nat ((y * width + x) * 4) + c))) \<Longrightarrow>
                 body y x d m (d + c) = st (unsigned_zero (ld (m (rect + nat ((y * width + x) * 4) + c))))"
    and sl: "0 \<le> start_line"
    and dis: "{rect + nat (start_line * width * 4)
                ..<rect + nat (start_line * width * 4) + 4 * (nat height * nat width)}
              \<inter> {dst + nat (start_line * width * 4)
                ..<dst + nat (start_line * width * 4) + 4 * (nat height * nat width)} = {}"
    and rep: "\<forall>a\<in>{rect + nat (start_line * width * 4)
                ..<rect + nat (start_line * width * 4) + 4 * (nat height * nat width)}.
                representable rnd (ld (mem a))"
    and j: "j < 4 * (nat height * nat width)"
  shows "snd (blur_rows body width (nat height) start_line (dst + nat (start_line * width * 4), mem))
           (dst + nat (start_line * width * 4) + j)
         = st (unsigned_zero (ld (mem (rect + nat (start_line * width * 4) + j))))"
proof -
  define off where "off = nat (start_line * width * 4)"
  define w where "w = nat width"
  define h where "h = nat height"
  define S where "S = {rect + off..<rect + off + 4 * (h * w)}"
  define r where "r = (j div 4) div w"
  define q where "q = (j div 4) mod w"
  define c where "c = j mod 4"
  have wpos: "0 < w" using j by (cases "w = 0") (simp_all add: w_def)
  have width: "0 \<le> width" "int w = width" using wpos by (simp_all add: w_def)
  have hpos: "0 < h" using j by (cases "h = 0") (simp_all add: h_def)
  have height: "int h = height" using hpos by (simp add: h_def)
  have jd: "j = 4 * (r * w + q) + c" by (simp add: r_def q_def c_def)
  have c4: "c < 4" by (simp add: c_def)
  have qw: "q < w" using wpos by (simp add: q_def)
  have rh: "r < h"
  proof -
    have "j div 4 < h * w" using j by (simp add: h_def w_def)
    then show ?thesis by (simp add: r_def less_mult_imp_div_less)
  qed
  have addr: "rect + nat ((y * width + x) * 4) + c' = rect + off + (4 * (nat (y - start_line) * w + nat x) + c')"
    if "start_line \<le> y" "0 \<le> x" for y x c'
  proof -
    have "nat (((start_line + int (nat (y - start_line))) * width + int (nat x)) * 4)
          = nat (start_line * width * 4) + 4 * (nat (y - start_line) * nat width + nat x)"
      by (rule slice_address [OF sl width(1)])
    then show ?thesis using that by (simp add: off_def w_def)
  qed
  have inS: "rect + nat ((y * width + x) * 4) + c' \<in> S"
    if "start_line \<le> y" "y < start_line + int h" "0 \<le> x" "x < int w" "c' < 4" for y x c'
  proof -
    have "4 * (nat (y - start_line) * w + nat x) + c' < 4 * (h * w)"
      by (rule pixel_index_bound) (use that in simp_all)
    then show ?thesis unfolding addr [OF that(1,3)] S_def by simp
  qed
  have "snd (blur_rows body width h start_line (dst + off, mem)) (dst + off + 4 * (r * nat width + q) + c)
        = (\<lambda>y x c. st (unsigned_zero (ld (mem (rect + nat ((y * width + x) * 4) + c)))))
            (start_line + int r) (int q) c"
  proof (rule blur_rows_pointwise [where S = S and body = body and mem = mem and n = h
        and width = width and d = "dst + off" and yfirst = start_line])
    show "\<And>y x d m a. a \<notin> {d..<d + 4} \<Longrightarrow> body y x d m a = m a" by (rule frame)
    show "S \<inter> {dst + off..<dst + off + 4 * (h * nat width)} = {}"
      using dis by (simp add: S_def off_def h_def w_def)
    show "r < h" "q < nat width" "c < 4" using rh qw c4 by (simp_all add: w_def)
  next
    fix y x :: int and d' :: nat and m :: "'a heap" and c' :: nat
    assume a: "c' < 4" "start_line \<le> y" "y < start_line + int h" "0 \<le> x" "x < int (nat width)"
      "\<forall>a\<in>S. m a = mem a" "S \<inter> {d'..<d' + 4} = {}"
    have A: "rect + nat ((y * width + x) * 4) + c' \<in> S"
      by (rule inS) (use a in \<open>simp_all add: w_def\<close>)
    have eq: "m (rect + nat ((y * width + x) * 4) + c') = mem (rect + nat ((y * width + x) * 4) + c')"
      using a(6) A by blast
    have "body y x d' m (d' + c') = st (unsigned_zero (ld (m (rect + nat ((y * width + x) * 4) + c'))))"
    proof (rule unit [OF a(1,2)])
      show "y < start_line + height" using a(3) height by simp
      show "0 \<le> x" by (rule a(4))
      show "x < width" using a(5) width by (simp add: w_def)
      show "rect + nat ((y * width + x) * 4) + c' \<notin> {d'..<d' + 4}"
        using A a(7) by (auto simp: disjoint_iff)
      show "representable rnd (ld (m (rect + nat ((y * width + x) * 4) + c')))"
        unfolding eq using rep A by (simp add: S_def off_def h_def w_def)
    qed
    then show "body y x d' m (d' + c') = st (unsigned_zero (ld (mem (rect + nat ((y * width + x) * 4) + c'))))"
      by (simp only: eq)
  qed
  moreover have "rect + nat (((start_line + int r) * width + int q) * 4) + c = rect + off + j"
    using slice_address [OF sl width(1), of r q] by (simp add: jd off_def w_def)
  ultimately show ?thesis
    by (simp add: jd off_def [symmetric] h_def [symmetric] w_def [symmetric] add.assoc)
qed

lemma byte_number_exact:
  assumes "exact_on rnd byte_path_numbers" and "0 < i" "i \<le> 255"
  shows "rnd (of_int i) = Fin (of_int i)"
proof -
  have "1 \<le> nat i" "nat i \<le> 255" using assms(2,3) by linarith+
  then have "nat i \<in> {1..255}" by simp
  then have "real (nat i) \<in> real ` {1..255}" by (rule imageI)
  then have "real (nat i) \<in> byte_path_numbers" by (simp add: byte_path_numbers_def)
  moreover have "real (nat i) = of_int i" using assms(2) by simp
  ultimately show ?thesis using assms(1) unfolding exact_on_def by metis
qed

lemma byte_half_exact:
  assumes "exact_on rnd byte_path_numbers" and "0 \<le> i" "i \<le> 255"
  shows "rnd (of_int i + 1 / 2) = Fin (of_int i + 1 / 2)"
proof -
  have "nat i \<in> {0..255}" using assms(2,3) by simp
  then have "real (nat i) + 1 / 2 \<in> (\<lambda>n. real n + 1 / 2) ` {0..255}" by (rule imageI)
  then have "real (nat i) + 1 / 2 \<in> byte_path_numbers" by (simp add: byte_path_numbers_def)
  moreover have "real (nat i) = of_int i" using assms(2) by simp
  ultimately show ?thesis using assms(1) unfolding exact_on_def by metis
qed

lemma float_of_int_byte:
  assumes "exact_on rnd byte_path_numbers" and "0 \<le> i" "i \<le> 255"
  shows "float_of_int rnd i = Fin (of_int i)"
proof (cases "i = 0")
  case True
  then show ?thesis by (simp add: float_of_int_def)
next
  case False
  then have "0 < i" using assms(2) by simp
  then show ?thesis
    using byte_number_exact [OF assms(1) _ assms(3)] False by (simp add: float_of_int_def)
qed

lemma store_uchar_byte:
  assumes "exact_on rnd byte_path_numbers" and "0 \<le> i" "i \<le> 255"
  shows "store_uchar rnd (unsigned_zero (Fin (of_int i))) = word_of_int i"
proof -
  have pos: "(0::real) < of_int i + 1 / 2" using assms(2) by (simp add: add_nonneg_pos)
  have "fadd rnd (Fin (of_int i)) (Fin (1 / 2)) = Fin (of_int i + 1 / 2)"
    using byte_half_exact [OF assms] pos by (simp add: fadd_def)
  moreover have "trunc_real (of_int i + 1 / 2) = i"
  proof -
    have "\<lfloor>real_of_int i + 1 / 2\<rfloor> = i" by (simp add: floor_eq_iff)
    then show ?thesis using pos unfolding trunc_real_def by simp
  qed
  ultimately show ?thesis
    by (simp add: store_uchar_def unsigned_zero_def uchar_of_float_def)
qed

lemma uint_uchar_range: "0 \<le> uint (b :: uchar) \<and> uint b \<le> 255"
proof -
  have "uint b < 2 ^ LENGTH(8)" by (rule uint_lt2p)
  then show ?thesis by simp
qed

lemma store_uchar_exact:
  assumes "exact_on rnd byte_path_numbers"
  shows "store_uchar rnd (unsigned_zero (float_of_uchar rnd b)) = b"
proof -
  have r: "0 \<le> uint b" "uint b \<le> 255" using uint_uchar_range [of b] by simp_all
  have "float_of_uchar rnd b = Fin (of_int (uint b))"
    unfolding float_of_uchar_def by (rule float_of_int_byte [OF assms r])
  then have "store_uchar rnd (unsigned_zero (float_of_uchar rnd b)) = word_of_int (uint b)"
    using store_uchar_byte [OF assms r] by (simp only:)
  then show ?thesis by (simp only: word_of_int_uint)
qed

lemma representable_float_of_uchar:
  assumes "exact_on rnd byte_path_numbers"
  shows "representable rnd (float_of_uchar rnd b)"
proof -
  have r: "0 \<le> uint b" "uint b \<le> 255" using uint_uchar_range [of b] by simp_all
  have e: "float_of_uchar rnd b = Fin (of_int (uint b))"
    unfolding float_of_uchar_def by (rule float_of_int_byte [OF assms r])
  show ?thesis
  proof (cases "uint b = 0")
    case True
    then show ?thesis unfolding e by (simp add: representable_def)
  next
    case False
    then have "0 < uint b" using r(1) by linarith
    then have "rnd (of_int (uint b)) = Fin (of_int (uint b))"
      by (rule byte_number_exact [OF assms _ r(2)])
    then show ?thesis unfolding e representable_def by (simp only: float.case) blast
  qed
qed

text \<open>One pass with the kernel \<open>[1.0]\<close> and half-size 0, for any pair of load and store
  functions: a channel of the slice gets the stored sum \<open>0 + 1 * v\<close> of its own value.\<close>

lemma unit_blur_x_channel:
  fixes ld :: "'a \<Rightarrow> float" and st :: "float \<Rightarrow> 'a"
  assumes one: "rnd 1 = Fin 1"
    and sl: "0 \<le> start_line"
    and dis: "{rect + nat (start_line * width * 4)
                ..<rect + nat (start_line * width * 4) + 4 * (nat height * nat width)}
              \<inter> {dst + nat (start_line * width * 4)
                ..<dst + nat (start_line * width * 4) + 4 * (nat height * nat width)} = {}"
    and rep: "\<forall>a\<in>{rect + nat (start_line * width * 4)
                ..<rect + nat (start_line * width * 4) + 4 * (nat height * nat width)}.
                representable rnd (ld (mem a))"
    and j: "j < 4 * (nat height * nat width)"
  shows "gaussian_blur_x rnd ld st [Fin 1] 0 start_line width height frame_height rect dst mem
           (dst + nat (start_line * width * 4) + j)
         = st (unsigned_zero (ld (mem (rect + nat (start_line * width * 4) + j))))"
  unfolding gaussian_blur_x_def
proof (rule unit_blur_core [where rnd = rnd and ld = ld and st = st
      and body = "gaussian_blur_x_pixel rnd ld st [Fin 1] 0 width rect" and height = height
      and mem = mem])
  show "\<And>y x d m a. a \<notin> {d..<d + 4} \<Longrightarrow>
          (gaussian_blur_x_pixel rnd ld st [Fin 1] 0 width rect) y x d m a = m a"
    by (rule frame_blur_x_pixel)
  show "\<And>y x d m c. c < 4 \<Longrightarrow> start_line \<le> y \<Longrightarrow> y < start_line + height \<Longrightarrow> 0 \<le> x \<Longrightarrow>
          x < width \<Longrightarrow> rect + nat ((y * width + x) * 4) + c \<notin> {d..<d + 4} \<Longrightarrow>
          representable rnd (ld (m (rect + nat ((y * width + x) * 4) + c))) \<Longrightarrow>
          (gaussian_blur_x_pixel rnd ld st [Fin 1] 0 width rect) y x d m (d + c)
          = st (unsigned_zero (ld (m (rect + nat ((y * width + x) * 4) + c))))"
  proof -
    fix y x :: int and d :: nat and m :: "'a heap" and c :: nat
    assume "c < 4" "0 \<le> x" "x < width" "rect + nat ((y * width + x) * 4) + c \<notin> {d..<d + 4}"
      "representable rnd (ld (m (rect + nat ((y * width + x) * 4) + c)))"
    with one show "(gaussian_blur_x_pixel rnd ld st [Fin 1] 0 width rect) y x d m (d + c)
          = st (unsigned_zero (ld (m (rect + nat ((y * width + x) * 4) + c))))"
      by (intro blur_x_pixel_unit)
  qed
qed (rule sl dis rep j)+

lemma unit_blur_y_channel:
  fixes ld :: "'a \<Rightarrow> float" and st :: "float \<Rightarrow> 'a"
  assumes one: "rnd 1 = Fin 1"
    and sl: "0 \<le> start_line" and fh: "start_line + height \<le> frame_height"
    and dis: "{rect + nat (start_line * width * 4)
                ..<rect + nat (start_line * width * 4) + 4 * (nat height * nat width)}
              \<inter> {dst + nat (start_line * width * 4)
                ..<dst + nat (start_line * width * 4) + 4 * (nat height * nat width)} = {}"
    and rep: "\<forall>a\<in>{rect + nat (start_line * width * 4)
                ..<rect + nat (start_line * width * 4) + 4 * (nat height * nat width)}.
                representable rnd (ld (mem a))"
    and j: "j < 4 * (nat height * nat width)"
  shows "gaussian_blur_y rnd ld st [Fin 1] 0 start_line width height frame_height rect dst mem
           (dst + nat (start_line * width * 4) + j)
         = st (unsigned_zero (ld (mem (rect + nat (start_line * width * 4) + j))))"
  unfolding gaussian_blur_y_def
proof (rule unit_blur_core [where rnd = rnd and ld = ld and st = st
      and body = "gaussian_blur_y_pixel rnd ld st [Fin 1] 0 width frame_height rect"
      and height = height and mem = mem])
  show "\<And>y x d m a. a \<notin> {d..<d + 4} \<Longrightarrow>
          (gaussian_blur_y_pixel rnd ld st [Fin 1] 0 width frame_height rect) y x d m a = m a"
    by (rule frame_blur_y_pixel)
  show "\<And>y x d m c. c < 4 \<Longrightarrow> start_line \<le> y \<Longrightarrow> y < start_line + height \<Longrightarrow> 0 \<le> x \<Longrightarrow>
          x < width \<Longrightarrow> rect + nat ((y * width + x) * 4) + c \<notin> {d..<d + 4} \<Longrightarrow>
          representable rnd (ld (m (rect + nat ((y * width + x) * 4) + c))) \<Longrightarrow>
          (gaussian_blur_y_pixel rnd ld st [Fin 1] 0 width frame_height rect) y x d m (d + c)
          = st (unsigned_zero (ld (m (rect + nat ((y * width + x) * 4) + c))))"
  proof -
    fix y x :: int and d :: nat and m :: "'a heap" and c :: nat
    assume c: "c < 4" and y: "start_line \<le> y" "y < start_line + height"
      and r: "rect + nat ((y * width + x) * 4) + c \<notin> {d..<d + 4}"
        "representable rnd (ld (m (rect + nat ((y * width + x) * 4) + c)))"
    have "0 \<le> y" using sl y(1) by simp
    moreover have "y < frame_height" using fh y(2) by simp
    ultimately show "(gaussian_blur_y_pixel rnd ld st [Fin 1] 0 width frame_height rect) y x d m (d + c)
          = st (unsigned_zero (ld (m (rect + nat ((y * width + x) * 4) + c))))"
      using one c r by (intro blur_y_pixel_unit)
  qed
qed (rule sl dis rep j)+

text \<open>
  Claim C8, as the code has it. One pass of the separable blur (horizontal or vertical) with
  the one-element kernel \<open>[1.0]\<close> and half-size 0 leaves every byte channel of the slice it
  processes as it was, the output being converted with the +0.5 bias, and every float
  channel too, but for a negative zero, which it stores as a positive zero. The slice lies
  inside the frame, the output buffer does not overlap the input, and the numbers involved
  are floats.
\<close>

theorem unit_kernel_blur_identity:
  assumes "rnd 1 = Fin 1" and "exact_on rnd byte_path_numbers"
    and "0 \<le> start_line" and "start_line + height \<le> frame_height"
    and "{rect + nat (start_line * width * 4)
           ..<rect + nat (start_line * width * 4) + 4 * (nat height * nat width)}
         \<inter> {dst + nat (start_line * width * 4)
           ..<dst + nat (start_line * width * 4) + 4 * (nat height * nat width)} = {}"
    and "\<forall>a\<in>{rect + nat (start_line * width * 4)
           ..<rect + nat (start_line * width * 4) + 4 * (nat height * nat width)}.
           representable rnd (floats a)"
    and "j < 4 * (nat height * nat width)"
  shows "gaussian_blur_x rnd (\<lambda>v. v) store_float [Fin 1] 0 start_line width height frame_height
           rect dst floats (dst + nat (start_line * width * 4) + j)
         = (if floats (rect + nat (start_line * width * 4) + j) = NegZero then Fin 0
            else floats (rect + nat (start_line * width * 4) + j))
       \<and> gaussian_blur_y rnd (\<lambda>v. v) store_float [Fin 1] 0 start_line width height frame_height
           rect dst floats (dst + nat (start_line * width * 4) + j)
         = (if floats (rect + nat (start_line * width * 4) + j) = NegZero then Fin 0
            else floats (rect + nat (start_line * width * 4) + j))
       \<and> gaussian_blur_x rnd (float_of_uchar rnd) (store_uchar rnd) [Fin 1] 0 start_line width height
            frame_height rect dst bytes (dst + nat (start_line * width * 4) + j)
          = bytes (rect + nat (start_line * width * 4) + j)
       \<and> gaussian_blur_y rnd (float_of_uchar rnd) (store_uchar rnd) [Fin 1] 0 start_line width height
            frame_height rect dst bytes (dst + nat (start_line * width * 4) + j)
          = bytes (rect + nat (start_line * width * 4) + j)"
proof -
  note one = assms(1) and ex = assms(2) and sl = assms(3) and fh = assms(4)
    and dis = assms(5) and rep = assms(6) and j = assms(7)
  have repb: "\<forall>a\<in>{rect + nat (start_line * width * 4)
           ..<rect + nat (start_line * width * 4) + 4 * (nat height * nat width)}.
           representable rnd (float_of_uchar rnd (bytes a))"
    by (simp add: representable_float_of_uchar [OF ex])
  have fx: "gaussian_blur_x rnd (\<lambda>v. v) store_float [Fin 1] 0 start_line width height frame_height
              rect dst floats (dst + nat (start_line * width * 4) + j)
            = store_float (unsigned_zero (floats (rect + nat (start_line * width * 4) + j)))"
    using one sl dis rep j by (rule unit_blur_x_channel)
  have fy: "gaussian_blur_y rnd (\<lambda>v. v) store_float [Fin 1] 0 start_line width height frame_height
              rect dst floats (dst + nat (start_line * width * 4) + j)
            = store_float (unsigned_zero (floats (rect + nat (start_line * width * 4) + j)))"
    using one sl fh dis rep j by (rule unit_blur_y_channel)
  have bx: "gaussian_blur_x rnd (float_of_uchar rnd) (store_uchar rnd) [Fin 1] 0 start_line width
              height frame_height rect dst bytes (dst + nat (start_line * width * 4) + j)
            = store_uchar rnd (unsigned_zero (float_of_uchar rnd
                (bytes (rect + nat (start_line * width * 4) + j))))"
    using one sl dis repb j by (rule unit_blur_x_channel)
  have "by": "gaussian_blur_y rnd (float_of_uchar rnd) (store_uchar rnd) [Fin 1] 0 start_line width
              height frame_height rect dst bytes (dst + nat (start_line * width * 4) + j)
            = store_uchar rnd (unsigned_zero (float_of_uchar rnd
                (bytes (rect + nat (start_line * width * 4) + j))))"
    using one sl fh dis repb j by (rule unit_blur_y_channel)
  have f: "store_float (unsigned_zero v) = (if v = NegZero then Fin 0 else v)" for v
    by (simp add: store_float_def unsigned_zero_def)
  show ?thesis
    unfolding fx fy bx "by" f by (simp add: store_uchar_exact [OF ex])
qed

theorem unit_kernel_blur_identity_witness:
  "gaussian_blur_x exact_rnd (\<lambda>v. v) store_float [Fin 1] 0 0 1 1 1 0 4 demo_floats 4 = Fin 1
   \<and> gaussian_blur_y exact_rnd (\<lambda>v. v) store_float [Fin 1] 0 0 1 1 1 0 4 demo_floats 4 = Fin 1
   \<and> gaussian_blur_x exact_rnd (float_of_uchar exact_rnd) (store_uchar exact_rnd) [Fin 1] 0 0 1 1 1 0 4
        demo_bytes 4 = 10
   \<and> gaussian_blur_y exact_rnd (float_of_uchar exact_rnd) (store_uchar exact_rnd) [Fin 1] 0 0 1 1 1 0 4
        demo_bytes 4 = 10"
proof -
  have h: "exact_rnd 1 = Fin 1" "exact_on exact_rnd byte_path_numbers" "(0::int) \<le> 0" "(0::int) + 1 \<le> 1"
    "{0 + nat (0 * 1 * 4)..<0 + nat (0 * 1 * 4) + 4 * (nat 1 * nat 1)}
       \<inter> {4 + nat (0 * 1 * 4)..<4 + nat (0 * 1 * 4) + 4 * (nat 1 * nat 1)} = ({} :: nat set)"
    "\<forall>a\<in>{0 + nat (0 * 1 * 4)..<0 + nat (0 * 1 * 4) + 4 * (nat 1 * nat 1)}.
        representable exact_rnd (demo_floats a)"
    "(0::nat) < 4 * (nat 1 * nat 1)"
    by (simp_all add: exact_rnd_def exact_on_def representable_def demo_floats_def)
  have v: "demo_floats 0 = Fin 1" "demo_bytes 0 = 10"
    by (simp_all add: demo_floats_def demo_bytes_def)
  show ?thesis
    using unit_kernel_blur_identity [where rnd = exact_rnd and start_line = 0 and width = 1
        and height = 1 and frame_height = 1 and rect = 0 and dst = 4 and floats = demo_floats
        and bytes = demo_bytes and j = 0, OF h]
    by (simp add: v)
qed

text \<open>A one-pixel image whose float channels are all \<open>-0.0\<close>: after the horizontal and after
  the vertical pass the first channel of the output is \<open>+0.0\<close>, which is not the float the
  input holds.\<close>

theorem unit_kernel_blur_negative_zero_counterexample:
  "gaussian_blur_x exact_rnd (\<lambda>v. v) store_float [Fin 1] 0 0 1 1 1 0 4 (\<lambda>a. NegZero) 4 = Fin 0
   \<and> gaussian_blur_y exact_rnd (\<lambda>v. v) store_float [Fin 1] 0 0 1 1 1 0 4 (\<lambda>a. NegZero) 4 = Fin 0
   \<and> (\<lambda>a. NegZero) (0 :: nat) \<noteq> Fin 0"
proof -
  have h: "exact_rnd 1 = Fin 1" "(0::int) \<le> 0" "(0::int) + 1 \<le> 1"
    "{0 + nat (0 * 1 * 4)..<0 + nat (0 * 1 * 4) + 4 * (nat 1 * nat 1)}
       \<inter> {4 + nat (0 * 1 * 4)..<4 + nat (0 * 1 * 4) + 4 * (nat 1 * nat 1)} = ({} :: nat set)"
    "\<forall>a\<in>{0 + nat (0 * 1 * 4)..<0 + nat (0 * 1 * 4) + 4 * (nat 1 * nat 1)}.
        representable exact_rnd ((\<lambda>v. v) ((\<lambda>a. NegZero) a))"
    "(0::nat) < 4 * (nat 1 * nat 1)"
    by (simp_all add: exact_rnd_def representable_def)
  have x: "gaussian_blur_x exact_rnd (\<lambda>v. v) store_float [Fin 1] 0 0 1 1 1 0 4 (\<lambda>a. NegZero)
             (4 + nat (0 * 1 * 4) + 0) = store_float (unsigned_zero ((\<lambda>v. v) NegZero))"
    using unit_blur_x_channel [where rnd = exact_rnd and ld = "\<lambda>v. v" and st = store_float
        and start_line = 0 and width = 1 and height = 1 and frame_height = 1 and rect = 0
        and dst = 4 and mem = "\<lambda>a. NegZero" and j = 0, OF h(1,2,4,5,6)]
    by simp
  have y: "gaussian_blur_y exact_rnd (\<lambda>v. v) store_float [Fin 1] 0 0 1 1 1 0 4 (\<lambda>a. NegZero)
             (4 + nat (0 * 1 * 4) + 0) = store_float (unsigned_zero ((\<lambda>v. v) NegZero))"
    using unit_blur_y_channel [where rnd = exact_rnd and ld = "\<lambda>v. v" and st = store_float
        and start_line = 0 and width = 1 and height = 1 and frame_height = 1 and rect = 0
        and dst = 4 and mem = "\<lambda>a. NegZero" and j = 0, OF h]
    by simp
  show ?thesis using x y by (simp add: store_float_def unsigned_zero_def)
qed

subsection \<open>Word wrapping with no wrap width\<close>

lemma fold_upt_Suc: "fold f [0..<Suc k] s = f k (fold f [0..<k] s)"
  by simp

lemma advance_accumulates:
  assumes ex: "exact_on rnd (real_of_int ` {0..bound})"
    and "0 \<le> a" "0 \<le> b" "a + b \<le> bound"
  shows "fadd rnd (Fin (of_int a)) (float_of_int rnd b) = Fin (of_int (a + b))"
proof -
  have r: "rnd (of_int i) = Fin (of_int i)" if "0 \<le> i" "i \<le> bound" for i
  proof -
    have "real_of_int i \<in> real_of_int ` {0..bound}" using that by simp
    then show ?thesis using ex unfolding exact_on_def by blast
  qed
  show ?thesis
  proof (cases "b = 0")
    case True
    then show ?thesis using r [of a] assms(2,4) by (simp add: float_of_int_def fadd_def fzero_def)
  next
    case False
    then have fb: "float_of_int rnd b = Fin (of_int b)"
      using r [of b] assms(2,3,4) by (simp add: float_of_int_def)
    have "a + b \<noteq> 0" using False assms(2,3) by simp
    then have "real_of_int a + real_of_int b \<noteq> 0" by (metis of_int_add of_int_eq_0_iff)
    then show ?thesis using r [of "a + b"] assms(2,3,4) by (simp add: fb fadd_def)
  qed
qed

lemma without_position_update [simp]: "without_position (c\<lparr>position := p\<rparr>) = without_position c"
  by (simp add: without_position_def)

lemma first_byte_without_position: "first_byte (without_position c) = first_byte c"
  by (simp add: first_byte_def without_position_def)

lemma same_but_position:
  assumes "map without_position xs = map without_position ys" and "j < length ys"
  shows "advance_x (xs ! j) = advance_x (ys ! j)" "do_wrap (xs ! j) = do_wrap (ys ! j)"
    "first_byte (xs ! j) = first_byte (ys ! j)"
proof -
  have l: "length xs = length ys" using assms(1) by (metis length_map)
  have "without_position (xs ! j) = without_position (ys ! j)"
    using assms l by (metis nth_map)
  then show "advance_x (xs ! j) = advance_x (ys ! j)" "do_wrap (xs ! j) = do_wrap (ys ! j)"
    "first_byte (xs ! j) = first_byte (ys ! j)"
    by (metis without_position_def CharInfo.select_convs CharInfo.surjective CharInfo.update_convs(4),
        metis without_position_def CharInfo.select_convs CharInfo.surjective CharInfo.update_convs(4),
        metis first_byte_without_position)
qed

lemma prefix_sum_Suc:
  "k < length xs \<Longrightarrow> sum_list (take (Suc k) xs) = sum_list (take k xs) + (xs ! k :: int)"
  by (simp add: take_Suc_conv_app_nth)

lemma prefix_sum_nonneg: "\<forall>x\<in>set xs. (0::int) \<le> x \<Longrightarrow> 0 \<le> sum_list (take k xs)"
  by (meson in_set_takeD sum_list_nonneg)

lemma prefix_sum_le: "\<forall>x\<in>set xs. (0::int) \<le> x \<Longrightarrow> sum_list (take k xs) \<le> sum_list xs"
proof -
  assume a: "\<forall>x\<in>set xs. (0::int) \<le> x"
  have "sum_list xs = sum_list (take k xs) + sum_list (drop k xs)"
    by (metis append_take_drop_id sum_list_append)
  moreover have "0 \<le> sum_list (drop k xs)" using a by (meson in_set_dropD sum_list_nonneg)
  ultimately show ?thesis by simp
qed

lemma first_byte_position: "first_byte (c\<lparr>position := p\<rparr>) = first_byte c"
  by (simp add: first_byte_def)

lemma position_update_same:
  assumes "k < length chars"
  shows "map without_position (chars[k := (chars ! k)\<lparr>position := p\<rparr>]) = map without_position chars"
proof -
  have "map without_position (chars[k := (chars ! k)\<lparr>position := p\<rparr>])
        = (map without_position chars)[k := without_position (chars ! k)]"
    by (simp add: map_update)
  also have "\<dots> = map without_position chars"
    using assms by (metis list_update_id nth_map)
  finally show ?thesis .
qed

text \<open>One step of the first pass when no wrap can happen: nothing but a position changes, and
  the horizontal position moves on by the advance.\<close>

lemma wrap_mark_step_no_wrap:
  assumes same: "map without_position chars = map without_position chars0"
    and k: "k < length chars0"
    and N: "\<forall>c\<in>set chars0. first_byte c \<noteq> CHR 0x0A"
    and A: "\<forall>c\<in>set chars0. 0 \<le> advance_x c"
    and E: "exact_on rnd (real_of_int ` {0..bound})"
    and T: "sum_list (map advance_x chars0) \<le> bound"
    and M: "float_of_int rnd wrap_w = Fin m" "real_of_int bound \<le> m"
  shows "\<exists>chars' y' last_space'.
           wrap_mark_step rnd wrap_w k
             (chars, (Fin (of_int (sum_list (take k (map advance_x chars0)))), y), last_space)
           = (chars', (Fin (of_int (sum_list (take (Suc k) (map advance_x chars0)))), y'), last_space')
         \<and> map without_position chars' = map without_position chars0"
proof -
  let ?adv = "map advance_x chars0"
  let ?s = "sum_list (take k ?adv)"
  have len: "length chars = length chars0" using same by (metis length_map)
  have An: "\<forall>x\<in>set ?adv. 0 \<le> x" using A by simp
  have s0: "0 \<le> ?s" by (rule prefix_sum_nonneg [OF An])
  have sk: "sum_list (take (Suc k) ?adv) = ?s + advance_x (chars0 ! k)"
    using prefix_sum_Suc [of k ?adv] k by simp
  have sle: "sum_list (take (Suc k) ?adv) \<le> bound"
    using prefix_sum_le [OF An, of "Suc k"] T by simp
  have ak: "0 \<le> advance_x (chars0 ! k)" using A k by simp
  have sb: "?s \<le> bound" using sle sk ak by simp
  have nf: "\<not> flt (float_of_int rnd wrap_w) (Fin (of_int ?s))"
    using M sb by (simp add: flt_def)
  have fbk: "first_byte (chars ! k) \<noteq> CHR 0x0A"
    using same_but_position(3) [OF same k] N k by simp
  have advk: "advance_x (chars ! k) = advance_x (chars0 ! k)"
    by (rule same_but_position(1) [OF same k])
  have acc: "fadd rnd (Fin (of_int ?s)) (float_of_int rnd (advance_x (chars0 ! k)))
             = Fin (of_int (sum_list (take (Suc k) ?adv)))"
    unfolding sk by (rule advance_accumulates [OF E s0 ak]) (use sle sk in simp)
  have kk: "k < length chars" using k len by simp
  have step: "wrap_mark_step rnd wrap_w k (chars, (Fin (of_int ?s), y), last_space)
        = (if first_byte (chars ! k) = CHR '' ''
           then chars[k := (chars ! k)\<lparr>position := (Fin (of_int ?s), y)\<rparr>] else chars,
           (Fin (of_int (sum_list (take (Suc k) ?adv))), y),
           if first_byte (chars ! k) = CHR '' '' then Some k else last_space)"
  proof (cases "first_byte (chars ! k) = CHR '' ''")
    case True
    then show ?thesis
      unfolding wrap_mark_step_def
      using fbk nf acc advk kk by (simp add: Let_def first_byte_position)
  next
    case False
    then show ?thesis
      unfolding wrap_mark_step_def
      using fbk nf acc advk kk by (simp add: Let_def first_byte_position split: option.splits)
  qed
  have "map without_position (if first_byte (chars ! k) = CHR '' ''
           then chars[k := (chars ! k)\<lparr>position := (Fin (of_int ?s), y)\<rparr>] else chars)
        = map without_position chars0"
    using same kk by (simp add: position_update_same)
  then show ?thesis unfolding step by blast
qed

lemma wrap_mark_pass_no_wrap:
  assumes N: "\<forall>c\<in>set chars0. first_byte c \<noteq> CHR 0x0A"
    and A: "\<forall>c\<in>set chars0. 0 \<le> advance_x c"
    and E: "exact_on rnd (real_of_int ` {0..bound})"
    and T: "sum_list (map advance_x chars0) \<le> bound"
    and M: "float_of_int rnd wrap_w = Fin m" "real_of_int bound \<le> m"
  shows "k \<le> length chars0 \<Longrightarrow>
         \<exists>chars y last_space.
           fold (wrap_mark_step rnd wrap_w) [0..<k] (chars0, (Fin 0, Fin 0), None)
           = (chars, (Fin (of_int (sum_list (take k (map advance_x chars0)))), y), last_space)
         \<and> map without_position chars = map without_position chars0"
proof (induction k)
  case 0
  then show ?case by simp
next
  case (Suc k)
  then obtain chars y last_space where
    f: "fold (wrap_mark_step rnd wrap_w) [0..<k] (chars0, (Fin 0, Fin 0), None)
        = (chars, (Fin (of_int (sum_list (take k (map advance_x chars0)))), y), last_space)"
    and same: "map without_position chars = map without_position chars0"
    by auto
  have k: "k < length chars0" using Suc.prems by simp
  show ?case
    unfolding fold_upt_Suc f
    by (rule wrap_mark_step_no_wrap [OF same k N A E T M])
qed

lemma trunc_real_of_int: "trunc_real (real_of_int i) = i"
  by (simp add: trunc_real_def)

text \<open>One step of the second pass on a character that is neither marked nor a newline.\<close>

lemma fill_line_step_no_wrap:
  assumes same: "map without_position chars = map without_position chars0"
    and k: "k < length chars0"
    and N: "\<forall>c\<in>set chars0. first_byte c \<noteq> CHR 0x0A"
    and A: "\<forall>c\<in>set chars0. 0 \<le> advance_x c"
    and W: "\<forall>c\<in>set chars0. \<not> do_wrap c"
    and E: "exact_on rnd (real_of_int ` {0..bound})"
    and T: "sum_list (map advance_x chars0) \<le> bound"
  shows "fill_line_step rnd line_h k
           (chars, ls0 @ [l], (Fin (of_int (sum_list (take k (map advance_x chars0)))), y))
         = (chars[k := (chars ! k)\<lparr>position := (Fin (of_int (sum_list (take k (map advance_x chars0)))), y)\<rparr>],
            ls0 @ [l\<lparr>characters := characters l @
                       [(chars ! k)\<lparr>position := (Fin (of_int (sum_list (take k (map advance_x chars0)))), y)\<rparr>],
                     line_width := sum_list (take k (map advance_x chars0))\<rparr>],
            (Fin (of_int (sum_list (take (Suc k) (map advance_x chars0)))), y))"
proof -
  let ?adv = "map advance_x chars0"
  let ?s = "sum_list (take k ?adv)"
  have len: "length chars = length chars0" using same by (metis length_map)
  have kk: "k < length chars" using k len by simp
  have An: "\<forall>x\<in>set ?adv. 0 \<le> x" using A by simp
  have s0: "0 \<le> ?s" by (rule prefix_sum_nonneg [OF An])
  have sk: "sum_list (take (Suc k) ?adv) = ?s + advance_x (chars0 ! k)"
    using prefix_sum_Suc [of k ?adv] k by simp
  have sle: "sum_list (take (Suc k) ?adv) \<le> bound"
    using prefix_sum_le [OF An, of "Suc k"] T by simp
  have ak: "0 \<le> advance_x (chars0 ! k)" using A k by simp
  have fbk: "first_byte (chars ! k) \<noteq> CHR 0x0A"
    using same_but_position(3) [OF same k] N k by simp
  have wk: "\<not> do_wrap (chars ! k)"
    using same_but_position(2) [OF same k] W k by simp
  have advk: "advance_x (chars ! k) = advance_x (chars0 ! k)"
    by (rule same_but_position(1) [OF same k])
  have acc: "fadd rnd (Fin (of_int ?s)) (float_of_int rnd (advance_x (chars0 ! k)))
             = Fin (of_int (sum_list (take (Suc k) ?adv)))"
    unfolding sk by (rule advance_accumulates [OF E s0 ak]) (use sle sk in simp)
  show ?thesis
    unfolding fill_line_step_def
    using fbk wk acc advk kk
    by (simp add: Let_def first_byte_position trunc_real_of_int)
qed

lemma fill_line_pass_no_wrap:
  assumes same: "map without_position chars1 = map without_position chars0"
    and N: "\<forall>c\<in>set chars0. first_byte c \<noteq> CHR 0x0A"
    and A: "\<forall>c\<in>set chars0. 0 \<le> advance_x c"
    and W: "\<forall>c\<in>set chars0. \<not> do_wrap c"
    and E: "exact_on rnd (real_of_int ` {0..bound})"
    and T: "sum_list (map advance_x chars0) \<le> bound"
  shows "k \<le> length chars0 \<Longrightarrow>
         \<exists>chars l y.
           fold (fill_line_step rnd line_h) [0..<k] (chars1, ls0 @ [empty_line], (Fin 0, Fin 0))
           = (chars, ls0 @ [l], (Fin (of_int (sum_list (take k (map advance_x chars0)))), y))
         \<and> map without_position chars = map without_position chars0
         \<and> map without_position (characters l) = take k (map without_position chars0)
         \<and> line_width l = sum_list (take (k - 1) (map advance_x chars0))"
proof (induction k)
  case 0
  then show ?case using same by (simp add: empty_line_def)
next
  case (Suc k)
  then obtain chars l y where
    f: "fold (fill_line_step rnd line_h) [0..<k] (chars1, ls0 @ [empty_line], (Fin 0, Fin 0))
        = (chars, ls0 @ [l], (Fin (of_int (sum_list (take k (map advance_x chars0)))), y))"
    and s: "map without_position chars = map without_position chars0"
    and c: "map without_position (characters l) = take k (map without_position chars0)"
    by auto
  have k: "k < length chars0" using Suc.prems by simp
  have kk: "k < length chars" using k s by (metis length_map)
  have wk: "without_position (chars ! k) = map without_position chars0 ! k"
    using s kk by (metis nth_map)
  show ?case
    unfolding fold_upt_Suc f fill_line_step_no_wrap [OF s k N A W E T]
    using s c kk k wk
    by (simp add: position_update_same take_Suc_conv_app_nth)
qed

text \<open>
  Claim C9. With wrap width 0 and a text without newline characters, word wrapping produces
  exactly one line. The line holds every entry of the character vector, none of them marked
  for wrapping, and its width is the sum of the advances of the characters of the text, that
  is of all entries but the last one, which build_character_info creates for the
  terminating zero. The advances are not negative, and their sums are integers that the
  float format holds exactly and that do not exceed the float \<open>INT_MAX\<close> converts to.
\<close>

theorem no_wrap_width_single_line:
  assumes "feq (wrap_width data) (Fin 0)"
    and "chars = text_chars @ [terminator]"
    and "\<forall>c\<in>set chars. first_byte c \<noteq> CHR 0x0A"
    and "\<forall>c\<in>set chars. 0 \<le> advance_x c"
    and "\<forall>c\<in>set chars. \<not> do_wrap c"
    and "exact_on rnd (real_of_int ` {0..bound})"
    and "sum_list (map advance_x chars) \<le> bound"
    and "float_of_int rnd INT_MAX = Fin m" and "real_of_int bound \<le> m"
  shows "\<exists>l chars'.
           apply_word_wrapping rnd data runtime image_size chars
             = (runtime\<lparr>lines := lines runtime @ [l]\<rparr>, chars')
         \<and> line_width l = sum_list (map advance_x text_chars)
         \<and> map without_position (characters l) = map without_position chars
         \<and> map without_position chars' = map without_position chars
         \<and> list_all (\<lambda>c. do_wrap c = False) chars'"
proof -
  note N = assms(3) and A = assms(4) and W = assms(5) and E = assms(6) and T = assms(7)
  have ww: "wrap_width_get rnd data image_size = INT_MAX"
    using assms(1) by (simp add: wrap_width_get_def)
  obtain chars1 y1 sp where
    p1: "fold (wrap_mark_step rnd INT_MAX) [0..<length chars] (chars, (Fin 0, Fin 0), None)
         = (chars1, (Fin (of_int (sum_list (take (length chars) (map advance_x chars)))), y1), sp)"
    and s1: "map without_position chars1 = map without_position chars"
    using wrap_mark_pass_no_wrap [OF N A E T assms(8,9), of "length chars"] by auto
  have l1: "length chars1 = length chars" using s1 by (metis length_map)
  obtain chars2 l y2 where
    p2: "fold (fill_line_step rnd (line_height runtime)) [0..<length chars]
           (chars1, lines runtime @ [empty_line], (Fin 0, Fin 0))
         = (chars2, lines runtime @ [l],
            (Fin (of_int (sum_list (take (length chars) (map advance_x chars)))), y2))"
    and s2: "map without_position chars2 = map without_position chars"
    and c2: "map without_position (characters l) = take (length chars) (map without_position chars)"
    and w2: "line_width l = sum_list (take (length chars - 1) (map advance_x chars))"
    using fill_line_pass_no_wrap [OF s1 N A W E T, of "length chars" "line_height runtime" "lines runtime"]
    by auto
  have r: "apply_word_wrapping rnd data runtime image_size chars
           = (runtime\<lparr>lines := lines runtime @ [l]\<rparr>, chars2)"
    unfolding apply_word_wrapping_def by (simp add: ww Let_def p1 l1 p2)
  have w: "line_width l = sum_list (map advance_x text_chars)"
    unfolding w2 assms(2) by simp
  have nw: "list_all (\<lambda>c. do_wrap c = False) chars2"
    unfolding list_all_length
  proof (intro allI impI)
    fix j assume "j < length chars2"
    then have j: "j < length chars" using s2 by (metis length_map)
    then show "do_wrap (chars2 ! j) = False"
      using same_but_position(2) [OF s2 j] W by simp
  qed
  show ?thesis using r w c2 s2 nw by auto
qed

theorem no_wrap_width_single_line_witness:
  "\<exists>l chars'.
     apply_word_wrapping exact_rnd \<lparr>wrap_width = Fin 0\<rparr> \<lparr>lines = [], line_height = 12\<rparr>
       (1920, 1080) demo_characters
       = (\<lparr>lines = [l], line_height = 12\<rparr>, chars')
     \<and> line_width l = 30
     \<and> map without_position (characters l) = map without_position demo_characters
     \<and> list_all (\<lambda>c. do_wrap c = False) chars'"
  using no_wrap_width_single_line [where data = "\<lparr>wrap_width = Fin 0\<rparr>"
      and chars = demo_characters
      and text_chars = "[demo_char 0 ''a b'', demo_char 1 '' b'', demo_char 2 ''b'']"
      and terminator = "demo_char 3 []" and rnd = exact_rnd and bound = 37
      and m = 2147483647 and runtime = "\<lparr>lines = [], line_height = 12\<rparr>"
      and image_size = "(1920, 1080)"]
  by (auto simp: demo_characters_def demo_char_def first_byte_def exact_on_def exact_rnd_def
      float_of_int_def INT_MAX_def feq_def)

subsection \<open>Glow effect: the blur filter\<close>




































subsection \<open>Text outline: jump flooding\<close>

lemma flood_loop_run:
  "flood_loop pass step_size a b = run_passes pass (flood_steps step_size) a b"
proof (induction pass step_size a b rule: flood_loop.induct)
  case (1 pass step_size a b)
  show ?case
  proof (cases "step_size = 0")
    case True
    then show ?thesis by (simp add: flood_loop.simps flood_steps.simps)
  next
    case False
    then show ?thesis
      using 1 [OF False]
      by (subst flood_loop.simps, subst flood_steps.simps) (simp split: option.splits)
  qed
qed

lemma run_passes_record:
  "run_passes (\<lambda>input output step_size. Some (input @ [step_size])) steps a b = Some (a @ steps)"
  by (induction steps arbitrary: a b) simp_all

lemma jfa_step_sizes_steps: "jfa_step_sizes p = Some (1 # flood_steps (cdiv p 2))"
  by (simp add: jfa_step_sizes_def jfa_flood_def flood_loop_run run_passes_record)

lemma cdiv_power_two: "cdiv (2 ^ Suc k) 2 = 2 ^ k"
  by (simp add: cdiv_def)

lemma flood_steps_power_two:
  "flood_steps (2 ^ k) = rev (map (\<lambda>i. 2 ^ i) [0..<Suc k])"
proof (induction k)
  case 0
  have "cdiv 1 2 = 0" by (simp add: cdiv_def)
  then show ?case by (simp add: flood_steps.simps)
next
  case (Suc k)
  have "flood_steps (2 ^ Suc k) = 2 ^ Suc k # flood_steps (2 ^ k)"
    by (subst flood_steps.simps) (simp add: cdiv_power_two del: power_Suc)
  then show ?case using Suc by simp
qed

lemma jfa_step_sizes_power_two:
  "jfa_step_sizes (2 ^ k) = Some (1 # rev (map (\<lambda>i. 2 ^ i) [0..<k]))"
proof (cases k)
  case 0
  have "cdiv 1 2 = 0" by (simp add: cdiv_def)
  then show ?thesis using 0 by (simp add: jfa_step_sizes_steps flood_steps.simps)
next
  case (Suc j)
  show ?thesis
    unfolding Suc jfa_step_sizes_steps cdiv_power_two flood_steps_power_two by simp
qed

text \<open>The two sampling loops visit the valid samples inside the image, row by row.\<close>

lemma jfa_sample_fold:
  assumes "0 \<le> yy" and "yy < snd size_xy"
  shows "fold (jfa_sample rnd ds input size_xy x y yy) offs st
         = fold (jfa_closer rnd ds x y)
             (filter (\<lambda>val. fst val \<noteq> JFA_INVALID)
                (map (\<lambda>(xx, yy). input ! nat (yy * fst size_xy + xx))
                   (filter (\<lambda>(xx, yy). 0 \<le> xx \<and> xx < fst size_xy \<and> 0 \<le> yy \<and> yy < snd size_xy)
                      (map (\<lambda>dx. (x + dx, yy)) offs)))) st"
  using assms
  by (induction offs arbitrary: st)
     (auto simp: jfa_sample_def jfa_closer_def Let_def split: prod.splits)

lemma jfa_rows_fold:
  "fold (\<lambda>dy state.
           (let yy = y + dy
            in if yy < 0 \<or> snd size_xy \<le> yy then state
               else fold (jfa_sample rnd ds input size_xy x y yy) offs state)) offs' st
   = fold (jfa_closer rnd ds x y)
       (filter (\<lambda>val. fst val \<noteq> JFA_INVALID)
          (map (\<lambda>(xx, yy). input ! nat (yy * fst size_xy + xx))
             (filter (\<lambda>(xx, yy). 0 \<le> xx \<and> xx < fst size_xy \<and> 0 \<le> yy \<and> yy < snd size_xy)
                (concat (map (\<lambda>dy. map (\<lambda>dx. (x + dx, y + dy)) offs) offs'))))) st"
proof (induction offs' arbitrary: st)
  case Nil
  then show ?case by simp
next
  case (Cons dy offs')
  show ?case
  proof (cases "y + dy < 0 \<or> snd size_xy \<le> y + dy")
    case True
    then have "filter (\<lambda>(xx, yy). 0 \<le> xx \<and> xx < fst size_xy \<and> 0 \<le> yy \<and> yy < snd size_xy)
                 (map (\<lambda>dx. (x + dx, y + dy)) offs) = []"
      by (auto simp: filter_empty_conv)
    then show ?thesis using True Cons by (simp add: Let_def)
  next
    case False
    then have b: "0 \<le> y + dy" "y + dy < snd size_xy" by simp_all
    show ?thesis using False Cons by (simp add: Let_def jfa_sample_fold [OF b])
  qed
qed

lemma jfa_pixel_candidates:
  "jfa_pixel rnd ds input size_xy [- step_size, 0, step_size] x y
   = fst (fold (jfa_closer rnd ds x y) (jfa_candidates input size_xy step_size x y)
            ((JFA_INVALID, JFA_INVALID), Fin FLT_MAX))"
  unfolding jfa_pixel_def jfa_candidates_def jfa_rows_fold ..



text \<open>With exact distances the loops keep a sample at the least distance.\<close>

lemma closer_fold_min:
  assumes "\<forall>v\<in>set vals.
             ds (float_of_int rnd (uint (fst v)), float_of_int rnd (uint (snd v)))
                (float_of_int rnd x, float_of_int rnd y) = Fin (real_of_int (d v))"
  shows "\<exists>c m. fold (jfa_closer rnd ds x y) vals (cinit, Fin minit) = (c, Fin m) \<and> m \<le> minit
           \<and> (\<forall>v\<in>set vals. m \<le> real_of_int (d v))
           \<and> ((c = cinit \<and> m = minit) \<or> (c \<in> set vals \<and> m = real_of_int (d c)))"
  using assms
proof (induction vals arbitrary: cinit minit)
  case Nil
  then show ?case by simp
next
  case (Cons v vals)
  have dv: "ds (float_of_int rnd (uint (fst v)), float_of_int rnd (uint (snd v)))
              (float_of_int rnd x, float_of_int rnd y) = Fin (real_of_int (d v))"
    using Cons.prems by simp
  have rest: "\<forall>v\<in>set vals.
             ds (float_of_int rnd (uint (fst v)), float_of_int rnd (uint (snd v)))
                (float_of_int rnd x, float_of_int rnd y) = Fin (real_of_int (d v))"
    using Cons.prems by simp
  show ?case
  proof (cases "real_of_int (d v) < minit")
    case True
    then have s: "jfa_closer rnd ds x y v (cinit, Fin minit) = (v, Fin (real_of_int (d v)))"
      by (simp add: jfa_closer_def dv flt_def)
    obtain c m where
      f: "fold (jfa_closer rnd ds x y) vals (v, Fin (real_of_int (d v))) = (c, Fin m)"
      and le: "m \<le> real_of_int (d v)"
      and mn: "\<forall>w\<in>set vals. m \<le> real_of_int (d w)"
      and wh: "(c = v \<and> m = real_of_int (d v)) \<or> (c \<in> set vals \<and> m = real_of_int (d c))"
      using Cons.IH [OF rest, of v "real_of_int (d v)"] by blast
    show ?thesis using f le mn wh True by (auto simp: s)
  next
    case False
    then have s: "jfa_closer rnd ds x y v (cinit, Fin minit) = (cinit, Fin minit)"
      by (simp add: jfa_closer_def dv flt_def)
    obtain c m where
      f: "fold (jfa_closer rnd ds x y) vals (cinit, Fin minit) = (c, Fin m)"
      and le: "m \<le> minit"
      and mn: "\<forall>w\<in>set vals. m \<le> real_of_int (d w)"
      and wh: "(c = cinit \<and> m = minit) \<or> (c \<in> set vals \<and> m = real_of_int (d c))"
      using Cons.IH [OF rest, of cinit minit] by blast
    show ?thesis using f le mn wh False by (auto simp: s)
  qed
qed

lemma jfa_index_bound:
  assumes "0 \<le> xx" "xx < sx" "0 \<le> yy" "yy < sy"
  shows "nat (yy * sx + xx) < nat sx * nat sy"
proof -
  have "yy * sx + xx < (yy + 1) * sx" using assms by (simp add: algebra_simps)
  also have "\<dots> \<le> sy * sx" using assms by (intro mult_right_mono) simp_all
  finally have "yy * sx + xx < sx * sy" by (simp add: mult.commute)
  moreover have "nat sx * nat sy = nat (sx * sy)" using assms by (simp add: nat_mult_distrib)
  moreover have "0 \<le> yy * sx + xx" using assms by simp
  ultimately show ?thesis by linarith
qed

lemma jfa_index_inj:
  assumes "0 \<le> x" "x < sx" "0 \<le> y" "0 \<le> xx" "xx < sx" "0 \<le> yy"
    and "nat (y * sx + x) = nat (yy * sx + xx)"
  shows "x = xx \<and> y = yy"
proof -
  have e: "y * sx + x = yy * sx + xx" using assms by (simp add: eq_nat_nat_iff)
  have "(y * sx + x) div sx = y" "(yy * sx + xx) div sx = yy" using assms by simp_all
  then have y: "y = yy" using e by simp
  then show ?thesis using e by simp
qed



lemma squared_distance_int_bound:
  assumes "0 \<le> x" "x \<le> INT_MAX" "0 \<le> y" "y \<le> INT_MAX"
  shows "real_of_int (squared_distance_int val x y) < FLT_MAX"
proof -
  have u: "uint (fst val) < 65536" "uint (snd val) < 65536"
    using uint_lt2p [of "fst val"] uint_lt2p [of "snd val"] by simp_all
  have g: "0 \<le> uint (fst val)" "0 \<le> uint (snd val)" by simp_all
  have a: "\<bar>uint (fst val) - x\<bar> \<le> \<bar>2147483648\<bar>"
    using assms u g unfolding INT_MAX_def by linarith
  have b: "\<bar>uint (snd val) - y\<bar> \<le> \<bar>2147483648\<bar>"
    using assms u g unfolding INT_MAX_def by linarith
  have "(uint (fst val) - x)\<^sup>2 \<le> 2147483648\<^sup>2" "(uint (snd val) - y)\<^sup>2 \<le> 2147483648\<^sup>2"
    using a b by (simp_all only: abs_le_square_iff)
  then have "squared_distance_int val x y \<le> 9223372036854775808"
    by (simp add: squared_distance_int_def)
  then have "real_of_int (squared_distance_int val x y) \<le> 9223372036854775808"
    by (metis of_int_le_iff of_int_numeral)
  then show ?thesis by (simp add: FLT_MAX_def)
qed

text \<open>A pixel of the pass: no candidate gives the invalid coordinate, and otherwise, with
  exact distances, one of the candidates at the least squared distance.\<close>

lemma jfa_pixel_closest:
  assumes D: "\<forall>v\<in>set (jfa_candidates input size_xy step_size x y).
             ds (float_of_int rnd (uint (fst v)), float_of_int rnd (uint (snd v)))
                (float_of_int rnd x, float_of_int rnd y)
             = Fin (real_of_int (squared_distance_int v x y))"
    and B: "0 \<le> x" "x \<le> INT_MAX" "0 \<le> y" "y \<le> INT_MAX"
  shows "(jfa_candidates input size_xy step_size x y = [] \<longrightarrow>
            jfa_pixel rnd ds input size_xy [- step_size, 0, step_size] x y = (JFA_INVALID, JFA_INVALID))
       \<and> (jfa_candidates input size_xy step_size x y \<noteq> [] \<longrightarrow>
            jfa_pixel rnd ds input size_xy [- step_size, 0, step_size] x y
              \<in> set (jfa_candidates input size_xy step_size x y)
          \<and> (\<forall>v\<in>set (jfa_candidates input size_xy step_size x y).
                squared_distance_int
                  (jfa_pixel rnd ds input size_xy [- step_size, 0, step_size] x y) x y
                \<le> squared_distance_int v x y))"
proof -
  let ?cs = "jfa_candidates input size_xy step_size x y"
  obtain c m where
    f: "fold (jfa_closer rnd ds x y) ?cs ((JFA_INVALID, JFA_INVALID), Fin FLT_MAX) = (c, Fin m)"
    and mn: "\<forall>v\<in>set ?cs. m \<le> real_of_int (squared_distance_int v x y)"
    and wh: "(c = (JFA_INVALID, JFA_INVALID) \<and> m = FLT_MAX)
             \<or> (c \<in> set ?cs \<and> m = real_of_int (squared_distance_int c x y))"
    using closer_fold_min [where d = "\<lambda>v. squared_distance_int v x y" and vals = ?cs
        and ds = ds and rnd = rnd and x = x and y = y
        and cinit = "(JFA_INVALID, JFA_INVALID)" and minit = FLT_MAX] D
    by blast
  have p: "jfa_pixel rnd ds input size_xy [- step_size, 0, step_size] x y = c"
    by (simp add: jfa_pixel_candidates f)
  have lt: "\<forall>v\<in>set ?cs. real_of_int (squared_distance_int v x y) < FLT_MAX"
    using squared_distance_int_bound [OF B] by blast
  show ?thesis
  proof (cases "?cs = []")
    case True
    then show ?thesis using f p by simp
  next
    case False
    then obtain v where v: "v \<in> set ?cs" by (cases ?cs) auto
    have "m < FLT_MAX" using mn lt v by fastforce
    then have "c \<in> set ?cs" and "m = real_of_int (squared_distance_int c x y)"
      using wh by auto
    then show ?thesis using False mn p by auto
  qed
qed

text \<open>The two loops of a pass over the pixels write one element each.\<close>

lemma fold_update_length:
  "length (fold (\<lambda>q out. out[g q := h q]) qs out) = length out"
  by (induction qs arbitrary: out) simp_all

lemma fold_update_other:
  "\<forall>q\<in>set qs. g q \<noteq> i \<Longrightarrow> fold (\<lambda>q out. out[g q := h q]) qs out ! i = out ! i"
  by (induction qs arbitrary: out) simp_all

lemma fold_update_hit:
  "q \<in> set qs \<Longrightarrow> g q = i \<Longrightarrow> i < length out \<Longrightarrow>
   \<exists>r\<in>set qs. g r = i \<and> fold (\<lambda>q out. out[g q := h q]) qs out ! i = h r"
proof (induction qs arbitrary: q rule: rev_induct)
  case Nil
  then show ?case by simp
next
  case (snoc r qs)
  show ?case
  proof (cases "g r = i")
    case True
    then show ?thesis using snoc.prems by (auto simp: fold_update_length)
  next
    case False
    then have "q \<in> set qs" using snoc.prems by auto
    then obtain r' where "r' \<in> set qs" "g r' = i"
      "fold (\<lambda>q out. out[g q := h q]) qs out ! i = h r'"
      using snoc.IH snoc.prems by blast
    then show ?thesis using False by auto
  qed
qed


lemma fold_rows_product:
  "fold (\<lambda>y out. fold (\<lambda>x out. out[g y x := h y x]) xs out) ys out
   = fold (\<lambda>q out. out[g (fst q) (snd q) := h (fst q) (snd q)]) (List.product ys xs) out"
  by (induction ys arbitrary: out) (simp_all add: fold_map comp_def)

lemma jump_flooding_pass_fold:
  assumes "step_size \<noteq> 0"
  shows "jump_flooding_pass rnd ds size_xy x_range y_range input output step_size
         = Some (fold (\<lambda>q out. out[nat (fst q * fst size_xy + snd q) :=
                     jfa_pixel rnd ds input size_xy
                       (if step_size < 0 then [] else [- step_size, 0, step_size]) (snd q) (fst q)])
                  (List.product y_range x_range) output)"
  using assms
  by (simp add: jump_flooding_pass_def step_offsets_def
      fold_rows_product [where g = "\<lambda>y x. nat (y * fst size_xy + x)"])

lemma jump_flooding_pass_pixel:
  assumes "0 < step_size" and "0 < sx" and "length output = nat sx * nat sy"
    and "set x_range \<subseteq> {0..<sx}" and "set y_range \<subseteq> {0..<sy}"
    and "x \<in> set x_range" and "y \<in> set y_range"
  shows "\<exists>out. jump_flooding_pass rnd ds (sx, sy) x_range y_range input output step_size = Some out
           \<and> length out = length output
           \<and> (\<forall>i. i \<notin> (\<lambda>(x, y). nat (y * sx + x)) ` (set x_range \<times> set y_range) \<longrightarrow>
                  out ! i = output ! i)
           \<and> out ! nat (y * sx + x)
               = jfa_pixel rnd ds input (sx, sy) [- step_size, 0, step_size] x y"
proof -
  let ?g = "\<lambda>q. nat (fst q * sx + snd q)"
  let ?h = "\<lambda>q. jfa_pixel rnd ds input (sx, sy) [- step_size, 0, step_size] (snd q) (fst q)"
  let ?qs = "List.product y_range x_range"
  let ?out = "fold (\<lambda>q out. out[?g q := ?h q]) ?qs output"
  have p: "jump_flooding_pass rnd ds (sx, sy) x_range y_range input output step_size = Some ?out"
    using jump_flooding_pass_fold [of step_size rnd ds "(sx, sy)" x_range y_range input "output"]
      assms(1)
    by simp
  have len: "length ?out = length output" by (rule fold_update_length)
  have other: "\<forall>i. i \<notin> (\<lambda>(x, y). nat (y * sx + x)) ` (set x_range \<times> set y_range) \<longrightarrow>
                  ?out ! i = output ! i"
  proof (intro allI impI)
    fix i assume i: "i \<notin> (\<lambda>(x, y). nat (y * sx + x)) ` (set x_range \<times> set y_range)"
    have "\<forall>q\<in>set ?qs. ?g q \<noteq> i"
    proof
      fix q assume "q \<in> set ?qs"
      then have "(snd q, fst q) \<in> set x_range \<times> set y_range" by auto
      then have "(\<lambda>(x, y). nat (y * sx + x)) (snd q, fst q)
                 \<in> (\<lambda>(x, y). nat (y * sx + x)) ` (set x_range \<times> set y_range)"
        by (rule imageI)
      then show "?g q \<noteq> i" using i by auto
    qed
    then show "?out ! i = output ! i" by (rule fold_update_other)
  qed
  have x: "0 \<le> x" "x < sx" and y: "0 \<le> y" "y < sy" using assms(4-7) by auto
  have q: "(y, x) \<in> set ?qs" using assms(6,7) by simp
  have b: "nat (y * sx + x) < length output"
    using jfa_index_bound [OF x y] assms(3) by simp
  obtain r where r: "r \<in> set ?qs" "?g r = nat (y * sx + x)"
    and v: "?out ! nat (y * sx + x) = ?h r"
    using fold_update_hit [of "(y, x)" ?qs ?g "nat (y * sx + x)" "output" ?h] q b by auto
  have "0 \<le> snd r" "snd r < sx" "0 \<le> fst r" using r(1) assms(4,5) by auto
  then have "snd r = x \<and> fst r = y"
    using jfa_index_inj [of "snd r" sx "fst r" x y] x y r(2) by simp
  then have "?out ! nat (y * sx + x)
             = jfa_pixel rnd ds input (sx, sy) [- step_size, 0, step_size] x y"
    using v by simp
  then show ?thesis using p len other by simp
qed

lemma float_of_int_exact: "float_of_int exact_rnd i = Fin (real_of_int i)"
  by (simp add: float_of_int_def exact_rnd_def)

lemma exact_distance_squared_int:
  "exact_distance_squared
     (float_of_int exact_rnd (uint (fst v)), float_of_int exact_rnd (uint (snd v)))
     (float_of_int exact_rnd x, float_of_int exact_rnd y)
   = Fin (real_of_int (squared_distance_int v x y))"
  by (simp only: float_of_int_exact exact_distance_squared_def fst_conv snd_conv fval.simps
      squared_distance_int_def of_int_add of_int_power of_int_diff)

text \<open>
  Claim C6, as the code has it. draw_text_outline runs a first pass with step size 1 and then
  passes with step sizes \<open>p / 2\<close>, \<open>p / 4\<close>, down to 1, where \<open>p\<close> is the value of
  \<open>power_of_2_max_i (outline_width)\<close>: for \<open>p = 2\<^sup>k\<close> these are \<open>k + 1\<close> passes with the step
  sizes \<open>1, 2\<^sup>k\<^sup>-\<^sup>1, ..., 2, 1\<close>. A pass with a positive step size returns, writes no element of
  the output outside the two ranges, and writes for a pixel of the two ranges the invalid
  coordinate when none of its nine samples lies in the image and holds a valid coordinate,
  and otherwise, the squared distances being computed exactly, one of these at the least
  squared distance from the pixel.
\<close>

theorem jump_flooding_steps_and_pass:
  assumes "0 < step_size"
    and "0 < sx" and "sx \<le> INT_MAX" and "0 < sy" and "sy \<le> INT_MAX"
    and "length output = nat sx * nat sy"
    and "set x_range \<subseteq> {0..<sx}" and "set y_range \<subseteq> {0..<sy}"
    and "x \<in> set x_range" and "y \<in> set y_range"
    and "\<forall>v\<in>set (jfa_candidates input (sx, sy) step_size x y).
           ds (float_of_int rnd (uint (fst v)), float_of_int rnd (uint (snd v)))
              (float_of_int rnd x, float_of_int rnd y)
           = Fin (real_of_int (squared_distance_int v x y))"
  shows "jfa_step_sizes (2 ^ k) = Some (1 # rev (map (\<lambda>i. 2 ^ i) [0..<k]))
       \<and> (\<exists>out. jump_flooding_pass rnd ds (sx, sy) x_range y_range input output step_size = Some out
            \<and> length out = length output
            \<and> (\<forall>i. i \<notin> (\<lambda>(x, y). nat (y * sx + x)) ` (set x_range \<times> set y_range) \<longrightarrow>
                   out ! i = output ! i)
            \<and> (jfa_candidates input (sx, sy) step_size x y = [] \<longrightarrow>
                   out ! nat (y * sx + x) = (JFA_INVALID, JFA_INVALID))
            \<and> (jfa_candidates input (sx, sy) step_size x y \<noteq> [] \<longrightarrow>
                   out ! nat (y * sx + x) \<in> set (jfa_candidates input (sx, sy) step_size x y)
                 \<and> (\<forall>v\<in>set (jfa_candidates input (sx, sy) step_size x y).
                       squared_distance_int (out ! nat (y * sx + x)) x y
                       \<le> squared_distance_int v x y)))"
proof -
  have x: "0 \<le> x" "x \<le> INT_MAX" and y: "0 \<le> y" "y \<le> INT_MAX"
    using assms(3,5,7-10) by auto
  obtain out where
    p: "jump_flooding_pass rnd ds (sx, sy) x_range y_range input output step_size = Some out"
    and len: "length out = length output"
    and other: "\<forall>i. i \<notin> (\<lambda>(x, y). nat (y * sx + x)) ` (set x_range \<times> set y_range) \<longrightarrow>
                  out ! i = output ! i"
    and v: "out ! nat (y * sx + x)
            = jfa_pixel rnd ds input (sx, sy) [- step_size, 0, step_size] x y"
    using jump_flooding_pass_pixel [OF assms(1,2,6-10), of rnd ds input] by blast
  note c = jfa_pixel_closest [where ds = ds and rnd = rnd and input = input
      and size_xy = "(sx, sy)" and step_size = step_size and x = x and y = y, OF assms(11) x y]
  show ?thesis
    unfolding v [symmetric] p
    using jfa_step_sizes_power_two [of k] len other c [unfolded v [symmetric]]
    by simp
qed

theorem jump_flooding_steps_and_pass_witness:
  "jfa_step_sizes (2 ^ 2) = Some [1, 2, 1]
   \<and> (\<exists>out. jump_flooding_pass exact_rnd exact_distance_squared (3, 1) [0, 1, 2] [0]
               [(0, 0), (JFA_INVALID, JFA_INVALID), (JFA_INVALID, JFA_INVALID)]
               (replicate 3 (JFA_INVALID, JFA_INVALID)) 1 = Some out
            \<and> length out = 3 \<and> out ! 1 = (0, 0))"
proof -
  have c: "jfa_candidates [(0, 0), (JFA_INVALID, JFA_INVALID), (JFA_INVALID, JFA_INVALID)]
             (3, 1) 1 1 0 = [(0, 0)]"
    by (simp add: jfa_candidates_def JFA_INVALID_def)
  have h: "(0::int) < 1" "(0::int) < 3" "(3::int) \<le> INT_MAX" "(0::int) < 1" "(1::int) \<le> INT_MAX"
    "length (replicate 3 (JFA_INVALID, JFA_INVALID)) = nat 3 * nat 1"
    "set [0, 1, 2] \<subseteq> {0..<(3::int)}" "set [0] \<subseteq> {0..<(1::int)}"
    "(1::int) \<in> set [0, 1, 2]" "(0::int) \<in> set [0]"
    "\<forall>v\<in>set (jfa_candidates [(0, 0), (JFA_INVALID, JFA_INVALID), (JFA_INVALID, JFA_INVALID)]
              (3, 1) 1 1 0).
       exact_distance_squared
         (float_of_int exact_rnd (uint (fst v)), float_of_int exact_rnd (uint (snd v)))
         (float_of_int exact_rnd 1, float_of_int exact_rnd 0)
       = Fin (real_of_int (squared_distance_int v 1 0))"
    by (simp_all add: INT_MAX_def exact_distance_squared_int)
  show ?thesis
    using jump_flooding_steps_and_pass [where step_size = 1 and sx = 3 and sy = 1
        and x_range = "[0, 1, 2]" and y_range = "[0]" and x = 1 and y = 0
        and input = "[(0, 0), (JFA_INVALID, JFA_INVALID), (JFA_INVALID, JFA_INVALID)]"
        and rnd = exact_rnd and ds = exact_distance_squared and k = 2, OF h]
    unfolding c by (auto simp: numeral_2_eq_2)
qed

text \<open>With \<open>power_of_2_max_i (outline_width) = 4\<close> the passes have the step sizes 1, 2, 1: the
  sequence does not start at its largest step, and there are three passes, where the largest
  step 2 gives two.\<close>

theorem jump_flooding_steps_counterexample:
  "jfa_step_sizes 4 = Some [1, 2, 1] \<and> length [1, 2, 1 :: int] \<noteq> nat \<lceil>log 2 2\<rceil> + 1"
proof -
  have "cdiv 4 2 = 2" "cdiv 2 2 = 1" "cdiv 1 2 = 0" by (simp_all add: cdiv_def)
  then have "flood_steps (cdiv 4 2) = [2, 1]"
    by (simp add: flood_steps.simps [of 2] flood_steps.simps [of 1] flood_steps.simps [of 0])
  then show ?thesis by (simp add: jfa_step_sizes_steps)
qed

subsection \<open>Jump flooding from a single opaque pixel\<close>










end
